theory Spec2Isabelle
  imports Complex_Main "HOL-Library.Word" "HOL-Library.Multiset"
begin

section \<open>Numbers and typed arrays\<close>

text \<open>
  The TypeScript sources compute with IEEE numbers and store samples in
  \<^verbatim>\<open>Float32Array\<close>s.  The embedding takes sample amplitudes and beat times as
  real numbers (exact arithmetic, no rounding of stored samples, no NaN among the
  inputs) and sample positions as integers.  The one place where the source itself
  produces NaN from finite input (a read past the end of the beat array in
  \<^verbatim>\<open>processAudioWithBeats\<close>) is modelled with \<open>option\<close>.
\<close>

type_synonym Float32Array = "real list"

text \<open>
  \<^verbatim>\<open>a[i] += v\<close> and \<^verbatim>\<open>a[i] *= v\<close> on a typed array: an index outside
  \<open>[0, length)\<close> reads \<^verbatim>\<open>undefined\<close> and the store is ignored, so the array is
  left as it is and nothing is raised.
\<close>

definition taAddAssign :: "Float32Array \<Rightarrow> int \<Rightarrow> real \<Rightarrow> Float32Array" where
  "taAddAssign a i v =
     (if 0 \<le> i \<and> i < int (length a) then a[nat i := a ! nat i + v] else a)"

definition taMulAssign :: "Float32Array \<Rightarrow> int \<Rightarrow> real \<Rightarrow> Float32Array" where
  "taMulAssign a i v =
     (if 0 \<le> i \<and> i < int (length a) then a[nat i := a ! nat i * v] else a)"

text \<open>
  A store into an \<^verbatim>\<open>Int16Array\<close> and \<^verbatim>\<open>DataView.setInt16\<close> convert a number
  with ToInt16: the fraction is dropped (toward zero) and the integer is reduced
  modulo \<open>2^16\<close> into the signed 16-bit range.
\<close>

definition trunc :: "real \<Rightarrow> int" where
  "trunc x = (if x < 0 then \<lceil>x\<rceil> else \<lfloor>x\<rfloor>)"

definition ToInt16 :: "real \<Rightarrow> 16 word" where
  "ToInt16 x = word_of_int (trunc x)"

section \<open>Quantization to 16-bit PCM\<close>

text \<open>
  \<^verbatim>\<open>processAudioWithBeats\<close>, "Convert to 16-bit PCM":
  \<^verbatim>\<open>
  const sample = Math.max(-1, Math.min(1, outputBuffer[i]));
  int16Buffer[i] = Math.floor(sample * 32767);
  \<close>
\<close>

definition clampSample :: "real \<Rightarrow> real" where
  "clampSample x = max (- 1) (min 1 x)"

definition quantizeSample :: "real \<Rightarrow> 16 word" where
  "quantizeSample x = ToInt16 (of_int \<lfloor>clampSample x * 32767\<rfloor>)"

definition quantizeToPCM16 :: "Float32Array \<Rightarrow> 16 word list" where
  "quantizeToPCM16 outputBuffer = map quantizeSample outputBuffer"

text \<open>
  \<^verbatim>\<open>audioBufferToWav\<close>, the sample loop (the buffers this repository hands to it
  have one channel):
  \<^verbatim>\<open>
  let sample = Math.max(-1, Math.min(1, channels[i][offset]));
  sample = sample < 0 ? sample * 0x8000 : sample * 0x7fff;
  view.setInt16(pos, sample, true);
  \<close>
\<close>

definition wavSample :: "real \<Rightarrow> 16 word" where
  "wavSample x =
     (let sample = clampSample x
      in ToInt16 (if sample < 0 then sample * 32768 else sample * 32767))"

definition wavSamples :: "Float32Array \<Rightarrow> 16 word list" where
  "wavSamples channel = map wavSample channel"

section \<open>Beat overlay: the percussion loop\<close>

text \<open>
  Every variant adds a percussion sample into the output with the same loop (the gain
  is 0.4, 0.5 or 0.6 depending on the variant):
  \<^verbatim>\<open>
  for (let i = 0; i < tickSamples.length; i++) {
      const outputIndex = samplePosition + i;
      if (outputIndex < totalSamples) {
          outputBuffer[outputIndex] += tickSamples[i] * 0.4;
      }
  }
  \<close>
  The source guards the upper end only; a negative index reaches the typed array's
  own store, which ignores it.
\<close>

function addSamples ::
  "nat \<Rightarrow> int \<Rightarrow> Float32Array \<Rightarrow> real \<Rightarrow> Float32Array \<Rightarrow> nat \<Rightarrow> Float32Array" where
  "addSamples totalSamples samplePosition tickSamples gain outputBuffer i =
     (if i < length tickSamples then
        (let outputIndex = samplePosition + int i
         in addSamples totalSamples samplePosition tickSamples gain
              (if outputIndex < int totalSamples
               then taAddAssign outputBuffer outputIndex (tickSamples ! i * gain)
               else outputBuffer)
              (Suc i))
      else outputBuffer)"
  by pat_completeness auto
termination
  by (relation "measure (\<lambda>(t, p, s, g, out, i). length s - i)") auto

declare addSamples.simps [simp del]

section \<open>The server variant: tick and tock, then PCM\<close>

text \<open>
  \<^verbatim>\<open>processAudioWithBeats\<close>.  The decoder and the beat detector are outside the
  repository: the model takes the decoded channel, its sample rate, the detected
  beat times and the two percussion samples as arguments.
  \<^verbatim>\<open>
  const halfBeatSeconds = tickTime + (Math.abs(arr[index + 1] - tickTime) / 2)
  const halfBeatPostition = Math.floor(halfBeatSeconds * sampleRate)
  \<close>
  For the last beat \<^verbatim>\<open>arr[index + 1]\<close> is \<^verbatim>\<open>undefined\<close>, the difference is
  NaN and so is the position: \<open>None\<close> here.
\<close>

definition halfBeatPostition :: "real list \<Rightarrow> nat \<Rightarrow> nat \<Rightarrow> int option" where
  "halfBeatPostition arr index sampleRate =
     (if index + 1 < length arr then
        (let tickTime = arr ! index;
             halfBeatSeconds = tickTime + \<bar>arr ! (index + 1) - tickTime\<bar> / 2
         in Some \<lfloor>halfBeatSeconds * real sampleRate\<rfloor>)
      else None)"

text \<open>
  One call of the \<^verbatim>\<open>forEach\<close> callback.  With a NaN position every test
  \<^verbatim>\<open>outputIndex < totalSamples\<close> of the tock loop is false, so the loop writes
  nothing.
\<close>

definition serverBeat ::
  "nat \<Rightarrow> nat \<Rightarrow> Float32Array \<Rightarrow> Float32Array \<Rightarrow> real list \<Rightarrow> nat \<Rightarrow> Float32Array
   \<Rightarrow> Float32Array" where
  "serverBeat sampleRate totalSamples tickSamples tockSamples arr index outputBuffer =
     (let tickTime = arr ! index;
          samplePosition = \<lfloor>tickTime * real sampleRate\<rfloor>;
          withTick = addSamples totalSamples samplePosition tickSamples 0.4 outputBuffer 0
      in case halfBeatPostition arr index sampleRate of
           None \<Rightarrow> withTick
         | Some p \<Rightarrow> addSamples totalSamples p tockSamples 0.4 withTick 0)"

definition serverMix ::
  "Float32Array \<Rightarrow> nat \<Rightarrow> real list \<Rightarrow> Float32Array \<Rightarrow> Float32Array \<Rightarrow> Float32Array" where
  "serverMix music sampleRate ticks tickSamples tockSamples =
     (let totalSamples = length music;
          outputBuffer = map (\<lambda>x. x * 0.5) music
      in fold (serverBeat sampleRate totalSamples tickSamples tockSamples ticks)
           [0 ..< length ticks] outputBuffer)"

definition processAudioWithBeats ::
  "Float32Array \<Rightarrow> nat \<Rightarrow> real list \<Rightarrow> Float32Array \<Rightarrow> Float32Array \<Rightarrow> 16 word list" where
  "processAudioWithBeats music sampleRate ticks tickSamples tockSamples =
     quantizeToPCM16 (serverMix music sampleRate ticks tickSamples tockSamples)"

section \<open>The browser variant with tick and tock\<close>

text \<open>
  \<^verbatim>\<open>processAudioInBrowser\<close> of \<^verbatim>\<open>src/unnamed/part_001\<close>:
  \<^verbatim>\<open>
  const nextBeat = arr[index + 1] || beatTime + 0.5;
  const halfBeatSeconds = beatTime + Math.abs(nextBeat - beatTime) / 2;
  const halfBeatPosition = Math.floor(halfBeatSeconds * sampleRate);
  \<close>
  \<^verbatim>\<open>||\<close> takes its right operand when the left one is \<^verbatim>\<open>undefined\<close> (no next
  beat) and also when it is the number 0.
\<close>

definition nextBeat :: "real list \<Rightarrow> nat \<Rightarrow> real" where
  "nextBeat arr index =
     (if index + 1 < length arr \<and> arr ! (index + 1) \<noteq> 0 then arr ! (index + 1)
      else arr ! index + 0.5)"

definition halfBeatPosition :: "real list \<Rightarrow> nat \<Rightarrow> nat \<Rightarrow> int" where
  "halfBeatPosition arr index sampleRate =
     (let beatTime = arr ! index;
          halfBeatSeconds = beatTime + \<bar>nextBeat arr index - beatTime\<bar> / 2
      in \<lfloor>halfBeatSeconds * real sampleRate\<rfloor>)"

definition tickTockBeat ::
  "nat \<Rightarrow> nat \<Rightarrow> Float32Array \<Rightarrow> Float32Array \<Rightarrow> real list \<Rightarrow> nat \<Rightarrow> Float32Array
   \<Rightarrow> Float32Array" where
  "tickTockBeat sampleRate totalSamples tickSamples tockSamples arr index outputData =
     (let beatTime = arr ! index;
          samplePosition = \<lfloor>beatTime * real sampleRate\<rfloor>;
          withTick = addSamples totalSamples samplePosition tickSamples 0.4 outputData 0
      in addSamples totalSamples (halfBeatPosition arr index sampleRate) tockSamples 0.4
           withTick 0)"

definition processAudioInBrowser_tickTock ::
  "Float32Array \<Rightarrow> nat \<Rightarrow> real list \<Rightarrow> Float32Array \<Rightarrow> Float32Array \<Rightarrow> Float32Array" where
  "processAudioInBrowser_tickTock audioData sampleRate beats tickSamples tockSamples =
     (let totalSamples = length audioData;
          outputData = map (\<lambda>x. x * 0.5) audioData
      in fold (tickTockBeat sampleRate totalSamples tickSamples tockSamples beats)
           [0 ..< length beats] outputData)"

section \<open>The ducking variant\<close>

text \<open>
  \<^verbatim>\<open>processAudioInBrowser\<close> of \<^verbatim>\<open>src/app/audioProcessor.ts\<close>: the original is
  copied at full volume, and around each beat it is ducked before the kick is added.
  (The callback also computes the half-beat position, which it does not use; no tock is
  added.)
  \<^verbatim>\<open>
  for (let i = duckStart; i < duckEnd; i++) {
      let duckGain = 1.0;
      if (i < samplePosition) {
          const progress = (i - duckStart) / attackSamples;
          duckGain = 1.0 - (progress * (1.0 - duckingAmount));
      } else {
          duckGain = duckingAmount;
      }
      outputData[i] *= duckGain;
  }
  \<close>
\<close>

definition duckGain :: "int \<Rightarrow> int \<Rightarrow> int \<Rightarrow> real \<Rightarrow> int \<Rightarrow> real" where
  "duckGain samplePosition duckStart attackSamples duckingAmount i =
     (if i < samplePosition then
        (let progress = real_of_int (i - duckStart) / real_of_int attackSamples
         in 1 - progress * (1 - duckingAmount))
      else duckingAmount)"

function duckLoop ::
  "int \<Rightarrow> int \<Rightarrow> int \<Rightarrow> int \<Rightarrow> real \<Rightarrow> Float32Array \<Rightarrow> int \<Rightarrow> Float32Array" where
  "duckLoop samplePosition duckStart duckEnd attackSamples duckingAmount outputData i =
     (if i < duckEnd then
        duckLoop samplePosition duckStart duckEnd attackSamples duckingAmount
          (taMulAssign outputData i
             (duckGain samplePosition duckStart attackSamples duckingAmount i))
          (i + 1)
      else outputData)"
  by pat_completeness auto
termination
  by (relation "measure (\<lambda>(p, s, e, a, d, out, i). nat (e - i))") auto

declare duckLoop.simps [simp del]

definition duckBeat ::
  "nat \<Rightarrow> nat \<Rightarrow> Float32Array \<Rightarrow> real \<Rightarrow> Float32Array \<Rightarrow> Float32Array" where
  "duckBeat sampleRate totalSamples tickSamples beatTime outputData =
     (let duckingAmount = 0.2;
          attackTime = 0.01;
          releaseTime = 0.15;
          attackSamples = \<lfloor>attackTime * real sampleRate\<rfloor>;
          releaseSamples = \<lfloor>releaseTime * real sampleRate\<rfloor>;
          samplePosition = \<lfloor>beatTime * real sampleRate\<rfloor>;
          duckStart = max 0 (samplePosition - attackSamples);
          duckEnd = min (int totalSamples) (samplePosition + releaseSamples);
          ducked = duckLoop samplePosition duckStart duckEnd attackSamples duckingAmount
                     outputData duckStart
      in addSamples totalSamples samplePosition tickSamples 0.5 ducked 0)"

definition processAudioInBrowser_duck ::
  "Float32Array \<Rightarrow> nat \<Rightarrow> real list \<Rightarrow> Float32Array \<Rightarrow> Float32Array" where
  "processAudioInBrowser_duck audioData sampleRate beats tickSamples =
     (let totalSamples = length audioData;
          outputData = map (\<lambda>x. x) audioData
      in fold (duckBeat sampleRate totalSamples tickSamples) beats outputData)"

section \<open>The sidechain variant\<close>

text \<open>
  \<^verbatim>\<open>processAudioInBrowser\<close> of \<^verbatim>\<open>src/unnamed/part_002\<close>: the envelope starts at
  the beat and lasts for the kick and the release.
  \<^verbatim>\<open>
  for (let i = 0; i < duckDuration && (samplePosition + i) < totalSamples; i++) {
      const outputIndex = samplePosition + i;
      let envelope = 1.0;
      if (i < attackSamples) {
          envelope = 1.0 - ((1.0 - duckAmount) * (i / attackSamples));
      } else if (i < kickDuration) {
          envelope = duckAmount;
      } else {
          const releaseProgress = (i - kickDuration) / releaseSamples;
          envelope = duckAmount + (1.0 - duckAmount) * releaseProgress;
      }
      outputData[outputIndex] *= envelope;
  }
  \<close>
\<close>

definition envelope :: "int \<Rightarrow> int \<Rightarrow> real \<Rightarrow> nat \<Rightarrow> nat \<Rightarrow> real" where
  "envelope attackSamples releaseSamples duckAmount kickDuration i =
     (if int i < attackSamples then
        1 - (1 - duckAmount) * (real i / real_of_int attackSamples)
      else if i < kickDuration then duckAmount
      else (let releaseProgress = (real i - real kickDuration) / real_of_int releaseSamples
            in duckAmount + (1 - duckAmount) * releaseProgress))"

function sidechainLoop ::
  "nat \<Rightarrow> int \<Rightarrow> int \<Rightarrow> int \<Rightarrow> int \<Rightarrow> real \<Rightarrow> nat \<Rightarrow> Float32Array \<Rightarrow> nat
   \<Rightarrow> Float32Array" where
  "sidechainLoop totalSamples samplePosition duckDuration attackSamples releaseSamples
     duckAmount kickDuration outputData i =
     (if int i < duckDuration \<and> samplePosition + int i < int totalSamples then
        sidechainLoop totalSamples samplePosition duckDuration attackSamples releaseSamples
          duckAmount kickDuration
          (taMulAssign outputData (samplePosition + int i)
             (envelope attackSamples releaseSamples duckAmount kickDuration i))
          (Suc i)
      else outputData)"
  by pat_completeness auto
termination
  by (relation "measure (\<lambda>(t, p, d, a, r, g, k, out, i). nat (d - int i))") auto

declare sidechainLoop.simps [simp del]

definition sidechainBeat ::
  "nat \<Rightarrow> nat \<Rightarrow> Float32Array \<Rightarrow> real \<Rightarrow> Float32Array \<Rightarrow> Float32Array" where
  "sidechainBeat sampleRate totalSamples tickSamples beatTime outputData =
     (let duckAmount = 0.2;
          attackSamples = \<lfloor>0.01 * real sampleRate\<rfloor>;
          releaseSamples = \<lfloor>0.15 * real sampleRate\<rfloor>;
          samplePosition = \<lfloor>beatTime * real sampleRate\<rfloor>;
          kickDuration = length tickSamples;
          duckDuration = int kickDuration + releaseSamples;
          ducked = sidechainLoop totalSamples samplePosition duckDuration attackSamples
                     releaseSamples duckAmount kickDuration outputData 0
      in addSamples totalSamples samplePosition tickSamples 0.6 ducked 0)"

definition processAudioInBrowser_sidechain ::
  "Float32Array \<Rightarrow> nat \<Rightarrow> real list \<Rightarrow> Float32Array \<Rightarrow> Float32Array" where
  "processAudioInBrowser_sidechain audioData sampleRate beats tickSamples =
     (let totalSamples = length audioData;
          outputData = map (\<lambda>x. x) audioData
      in fold (sidechainBeat sampleRate totalSamples tickSamples) beats outputData)"

section \<open>The brainrot generator\<close>

record AudioBuffer =
  buffer_sampleRate :: nat
  buffer_channelData :: Float32Array

record SongSlice =
  slice_audioData :: Float32Array
  slice_startTime :: real
  slice_duration :: real

datatype js_error = TypeError | NotSupportedError

text \<open>
  \<^verbatim>\<open>slice(start, end)\<close> of arrays and typed arrays: a negative bound counts from
  the end, both bounds are clamped to the length, and an empty range gives an empty
  copy.
\<close>

definition js_slice :: "'a list \<Rightarrow> int \<Rightarrow> int \<Rightarrow> 'a list" where
  "js_slice a start final =
     (let len = int (length a);
          k = (if start < 0 then max (len + start) 0 else min start len);
          e = (if final < 0 then max (len + final) 0 else min final len)
      in take (nat (e - k)) (drop (nat k) a))"

subsection \<open>Slices between consecutive downbeats\<close>

text \<open>
  \<^verbatim>\<open>
  for (let i = 0; i < downbeats.length - 1; i++) {
      const startTime = downbeats[i];
      const endTime = downbeats[i + 1];
      const duration = endTime - startTime;
      if (duration >= minSliceDuration && duration <= maxSliceDuration) {
          const startSample = Math.floor(startTime * sampleRate);
          const endSample = Math.floor(endTime * sampleRate);
          const sliceData = audioData.slice(startSample, endSample);
          slices.push({ audioData: sliceData, startTime, duration });
      }
  }
  \<close>
\<close>

definition minSliceDuration :: real where
  "minSliceDuration = 0.2"

definition maxSliceDuration :: real where
  "maxSliceDuration = 2.0"

function sliceLoop ::
  "Float32Array \<Rightarrow> nat \<Rightarrow> real list \<Rightarrow> SongSlice list \<Rightarrow> nat \<Rightarrow> SongSlice list" where
  "sliceLoop audioData sampleRate downbeats slices i =
     (if int i < int (length downbeats) - 1 then
        (let startTime = downbeats ! i;
             endTime = downbeats ! (i + 1);
             duration = endTime - startTime
         in sliceLoop audioData sampleRate downbeats
              (if duration \<ge> minSliceDuration \<and> duration \<le> maxSliceDuration then
                 (let startSample = \<lfloor>startTime * real sampleRate\<rfloor>;
                      endSample = \<lfloor>endTime * real sampleRate\<rfloor>;
                      sliceData = js_slice audioData startSample endSample
                  in slices @ [\<lparr>slice_audioData = sliceData, slice_startTime = startTime,
                                slice_duration = duration\<rparr>])
               else slices)
              (Suc i))
      else slices)"
  by pat_completeness auto
termination
  by (relation "measure (\<lambda>(a, r, d, s, i). length d - i)") auto

declare sliceLoop.simps [simp del]

text \<open>The \<^verbatim>\<open>forEach\<close> over the analysed songs, in track order.\<close>

definition createSlices :: "(AudioBuffer \<times> real list) list \<Rightarrow> SongSlice list" where
  "createSlices allDownbeats =
     fold (\<lambda>(buffer, downbeats) slices.
             sliceLoop (buffer_channelData buffer) (buffer_sampleRate buffer) downbeats slices 0)
          allDownbeats []"

subsection \<open>Shuffle and selection\<close>

text \<open>
  \<^verbatim>\<open>Math.random()\<close> is the one source of non-determinism.  The model takes the
  sequence of its results as a function of the call number and threads the number of
  calls made.  \<^verbatim>\<open>Math.random()\<close> returns a number in \<open>[0, 1)\<close>, so the index \<open>j\<close>
  of the swap satisfies \<open>0 \<le> j \<le> i\<close> and both stores of the swap are in range; the
  theorems about the shuffle assume that range of the random values.
  \<^verbatim>\<open>
  for (let i = slices.length - 1; i > 0; i--) {
      const j = Math.floor(Math.random() * (i + 1));
      [slices[i], slices[j]] = [slices[j], slices[i]];
  }
  \<close>
\<close>

fun shuffleLoop :: "(nat \<Rightarrow> real) \<Rightarrow> nat \<Rightarrow> 'a list \<Rightarrow> nat \<Rightarrow> 'a list \<times> nat" where
  "shuffleLoop random calls slices 0 = (slices, calls)"
| "shuffleLoop random calls slices (Suc i') =
     (let i = Suc i';
          j = nat \<lfloor>random calls * real (i + 1)\<rfloor>
      in shuffleLoop random (calls + 1) (slices[i := slices ! j, j := slices ! i]) i')"

definition shuffle :: "(nat \<Rightarrow> real) \<Rightarrow> 'a list \<Rightarrow> 'a list \<times> nat" where
  "shuffle random slices = shuffleLoop random 0 slices (length slices - 1)"

text \<open>
  \<^verbatim>\<open>
  const numSlices = Math.min(slices.length, Math.floor(Math.random() * 30) + 30);
  const selectedSlices = slices.slice(0, numSlices);
  \<close>
\<close>

definition numSlices :: "(nat \<Rightarrow> real) \<Rightarrow> nat \<Rightarrow> nat \<Rightarrow> int" where
  "numSlices random calls available =
     min (int available) (\<lfloor>random calls * 30\<rfloor> + 30)"

definition selectSlices :: "(nat \<Rightarrow> real) \<Rightarrow> 'a list \<Rightarrow> 'a list" where
  "selectSlices random slices =
     (let (shuffled, calls) = shuffle random slices
      in js_slice shuffled 0 (numSlices random calls (length shuffled)))"

subsection \<open>Combining the slices\<close>

text \<open>
  \<^verbatim>\<open>
  for (let i = 0; i < sliceData.length; i++) {
      let sample = sliceData[i];
      if (i < crossfadeSamples) {
          const fadeIn = i / crossfadeSamples;
          sample *= fadeIn;
      }
      if (i > sliceData.length - crossfadeSamples) {
          const fadeOut = (sliceData.length - i) / crossfadeSamples;
          sample *= fadeOut;
      }
      outputData[currentPosition + i] = sample;
  }
  currentPosition += sliceData.length;
  \<close>
\<close>

definition fadedSample :: "int \<Rightarrow> Float32Array \<Rightarrow> nat \<Rightarrow> real" where
  "fadedSample crossfadeSamples sliceData i =
     (let sample = sliceData ! i;
          sample = (if int i < crossfadeSamples
                    then sample * (real i / real_of_int crossfadeSamples) else sample);
          sample = (if int i > int (length sliceData) - crossfadeSamples
                    then sample * ((real (length sliceData) - real i) / real_of_int crossfadeSamples)
                    else sample)
      in sample)"

text \<open>
  \<^verbatim>\<open>outputData[currentPosition + i] = sample\<close>: a store past the end of a typed
  array is ignored.
\<close>

definition taSet :: "Float32Array \<Rightarrow> nat \<Rightarrow> real \<Rightarrow> Float32Array" where
  "taSet a i v = (if i < length a then a[i := v] else a)"

function writeSlice :: "int \<Rightarrow> Float32Array \<Rightarrow> nat \<Rightarrow> Float32Array \<Rightarrow> nat \<Rightarrow> Float32Array" where
  "writeSlice crossfadeSamples sliceData currentPosition outputData i =
     (if i < length sliceData then
        writeSlice crossfadeSamples sliceData currentPosition
          (taSet outputData (currentPosition + i) (fadedSample crossfadeSamples sliceData i))
          (Suc i)
      else outputData)"
  by pat_completeness auto
termination
  by (relation "measure (\<lambda>(c, s, p, out, i). length s - i)") auto

declare writeSlice.simps [simp del]

fun combineLoop :: "int \<Rightarrow> SongSlice list \<Rightarrow> nat \<Rightarrow> Float32Array \<Rightarrow> Float32Array" where
  "combineLoop crossfadeSamples [] currentPosition outputData = outputData"
| "combineLoop crossfadeSamples (sl # rest) currentPosition outputData =
     (let sliceData = slice_audioData sl
      in combineLoop crossfadeSamples rest (currentPosition + length sliceData)
           (writeSlice crossfadeSamples sliceData currentPosition outputData 0))"

text \<open>
  The total length is summed over the selected slices, the output is allocated with
  that length (zero-filled) and the slices are written into it one after the other.
\<close>

definition totalSamplesOf :: "SongSlice list \<Rightarrow> nat" where
  "totalSamplesOf selectedSlices =
     fold (\<lambda>slice totalSamples. totalSamples + length (slice_audioData slice)) selectedSlices 0"

definition combineSlices :: "int \<Rightarrow> SongSlice list \<Rightarrow> Float32Array" where
  "combineSlices crossfadeSamples selectedSlices =
     (let totalSamples = totalSamplesOf selectedSlices;
          outputData = replicate totalSamples 0
      in combineLoop crossfadeSamples selectedSlices 0 outputData)"

text \<open>The samples that the loop above writes for one slice, in order.\<close>

definition fadedSlice :: "int \<Rightarrow> Float32Array \<Rightarrow> Float32Array" where
  "fadedSlice crossfadeSamples sliceData =
     map (fadedSample crossfadeSamples sliceData) [0 ..< length sliceData]"

subsection \<open>The whole pipeline\<close>

text \<open>
  \<^verbatim>\<open>generateBrainrotSong\<close>.  The beat detector \<^verbatim>\<open>findDownbeats\<close> is an argument.
  \<^verbatim>\<open>audioBuffers[0].sampleRate\<close> is read without a test: on an empty list
  \<^verbatim>\<open>audioBuffers[0]\<close> is \<^verbatim>\<open>undefined\<close> and the property access raises a
  TypeError.  The Web Audio \<^verbatim>\<open>createBuffer\<close> refuses a buffer of zero frames with
  a NotSupportedError (the sample rate it is given is that of a decoded buffer, which
  it accepts).
\<close>

definition createBuffer :: "nat \<Rightarrow> nat \<Rightarrow> Float32Array \<Rightarrow> js_error + AudioBuffer" where
  "createBuffer totalSamples sampleRate outputData =
     (if totalSamples = 0 then Inl NotSupportedError
      else Inr \<lparr>buffer_sampleRate = sampleRate,
                buffer_channelData = take totalSamples outputData\<rparr>)"

definition generateBrainrotSong ::
  "(AudioBuffer \<Rightarrow> real list) \<Rightarrow> (nat \<Rightarrow> real) \<Rightarrow> AudioBuffer list \<Rightarrow> js_error + AudioBuffer" where
  "generateBrainrotSong findDownbeats random audioBuffers =
     (let allDownbeats = map (\<lambda>buffer. (buffer, findDownbeats buffer)) audioBuffers;
          slices = createSlices allDownbeats;
          selectedSlices = selectSlices random slices
      in case audioBuffers of
           [] \<Rightarrow> Inl TypeError
         | first # others \<Rightarrow>
             (let sampleRate = buffer_sampleRate first;
                  totalSamples = totalSamplesOf selectedSlices;
                  crossfadeSamples = \<lfloor>0.01 * real sampleRate\<rfloor>;
                  outputData = combineSlices crossfadeSamples selectedSlices
              in createBuffer totalSamples sampleRate outputData))"

section \<open>The specification's wording, for comparison\<close>

text \<open>
  The specification describes the quantizer as: clamp to \<open>[-1, 1]\<close>, multiply by
  32767, round toward zero for positive and negative values alike.
\<close>

definition specQuantize :: "real \<Rightarrow> int" where
  "specQuantize x = trunc (clampSample x * 32767)"

text \<open>
  The specification describes the ducking of one beat at sample position \<open>p\<close> as a
  gain over the window \<open>[p - attackSamples, p + sustainSamples + releaseSamples)\<close>: a
  linear ramp from 1 down to \<open>duckAmount\<close> during the attack (before \<open>p\<close>), \<open>duckAmount\<close>
  during the sustain, a linear ramp back to 1 during the release; outside the window
  the output is left alone.
\<close>

definition specDuckGain :: "int \<Rightarrow> int \<Rightarrow> int \<Rightarrow> real \<Rightarrow> int \<Rightarrow> int \<Rightarrow> real" where
  "specDuckGain attackSamples sustainSamples releaseSamples duckAmount p j =
     (if p - attackSamples \<le> j \<and> j < p then
        1 - (1 - duckAmount) * (real_of_int (j - (p - attackSamples)) / real_of_int attackSamples)
      else if p \<le> j \<and> j < p + sustainSamples then duckAmount
      else if p + sustainSamples \<le> j \<and> j < p + sustainSamples + releaseSamples then
        duckAmount
        + (1 - duckAmount) * (real_of_int (j - (p + sustainSamples)) / real_of_int releaseSamples)
      else 1)"

definition specDucked :: "int \<Rightarrow> int \<Rightarrow> int \<Rightarrow> real \<Rightarrow> int \<Rightarrow> Float32Array \<Rightarrow> Float32Array" where
  "specDucked attackSamples sustainSamples releaseSamples duckAmount p output =
     map (\<lambda>j. output ! j
               * specDuckGain attackSamples sustainSamples releaseSamples duckAmount p (int j))
       [0 ..< length output]"

text \<open>
  The specification describes slice extraction as: for every consecutive beat pair
  whose distance lies between the minimal and the maximal duration, a copy of the
  samples of the range \<open>[floor (start * sampleRate), floor (end * sampleRate))\<close>; the
  samples of that range which the track has are the ones below.
\<close>

definition durationOk :: "real \<Rightarrow> real \<Rightarrow> bool" where
  "durationOk startTime endTime =
     (minSliceDuration \<le> endTime - startTime \<and> endTime - startTime \<le> maxSliceDuration)"

definition specSlice :: "Float32Array \<Rightarrow> nat \<Rightarrow> real \<Rightarrow> real \<Rightarrow> SongSlice" where
  "specSlice audioData sampleRate startTime endTime =
     \<lparr>slice_audioData =
        map (\<lambda>k. audioData ! k)
          [nat \<lfloor>startTime * real sampleRate\<rfloor>
           ..< min (nat \<lfloor>endTime * real sampleRate\<rfloor>) (length audioData)],
      slice_startTime = startTime,
      slice_duration = endTime - startTime\<rparr>"

definition specSlices :: "Float32Array \<Rightarrow> nat \<Rightarrow> real list \<Rightarrow> SongSlice list" where
  "specSlices audioData sampleRate beats =
     map (\<lambda>i. specSlice audioData sampleRate (beats ! i) (beats ! (i + 1)))
       (filter (\<lambda>i. durationOk (beats ! i) (beats ! (i + 1))) [0 ..< length beats - 1])"

text \<open>
  The specification's crossfade example uses slices of constant amplitude.
\<close>

definition constantSlice :: "nat \<Rightarrow> real \<Rightarrow> SongSlice" where
  "constantSlice n v =
     \<lparr>slice_audioData = replicate n v, slice_startTime = 0, slice_duration = 1\<rparr>"

section \<open>Quantization: range\<close>

lemma clampSample_bounds: "- 1 \<le> clampSample x \<and> clampSample x \<le> 1"
  by (simp add: clampSample_def)

lemma sint_word16_of_int:
  assumes "- 32768 \<le> k" and "k \<le> 32767"
  shows "sint (word_of_int k :: 16 word) = k"
proof -
  have "signed_take_bit 15 k = k"
    using assms by (intro signed_take_bit_int_eq_self) simp_all
  then show ?thesis
    by (simp add: sint_sbintrunc')
qed

lemma floor_scaled_bounds:
  "- 32767 \<le> \<lfloor>clampSample x * 32767\<rfloor> \<and> \<lfloor>clampSample x * 32767\<rfloor> \<le> 32767"
proof -
  have b: "- 1 \<le> clampSample x" "clampSample x \<le> 1"
    using clampSample_bounds [of x] by simp_all
  have "(- 32767 :: real) \<le> clampSample x * 32767"
    using b by simp
  then have lo: "- 32767 \<le> \<lfloor>clampSample x * 32767\<rfloor>"
    by (simp add: le_floor_iff)
  have "clampSample x * 32767 \<le> (32767 :: real)"
    using b by simp
  then have "\<lfloor>clampSample x * 32767\<rfloor> \<le> \<lfloor>32767 :: real\<rfloor>"
    by (rule floor_mono)
  then show ?thesis
    using lo by simp
qed

lemma trunc_of_int: "trunc (of_int k) = k"
  by (simp add: trunc_def)

lemma sint_quantizeSample: "sint (quantizeSample x) = \<lfloor>clampSample x * 32767\<rfloor>"
  using floor_scaled_bounds [of x]
  by (simp add: quantizeSample_def ToInt16_def trunc_of_int sint_word16_of_int)

lemma wav_scaled_bounds:
  "- 32768 \<le> trunc (if clampSample x < 0 then clampSample x * 32768 else clampSample x * 32767)
   \<and> trunc (if clampSample x < 0 then clampSample x * 32768 else clampSample x * 32767) \<le> 32767"
proof (cases "clampSample x < 0")
  case True
  have "(- 32768 :: real) \<le> clampSample x * 32768"
    using clampSample_bounds [of x] by simp
  then have "- 32768 \<le> \<lceil>clampSample x * 32768\<rceil>"
    by (simp add: le_ceiling_iff)
  moreover have "clampSample x * 32768 \<le> 0"
    using True by (simp add: mult_le_0_iff)
  then have "\<lceil>clampSample x * 32768\<rceil> \<le> 0"
    by (simp add: ceiling_le_iff)
  moreover have "clampSample x * 32768 < 0"
    using True by (simp add: mult_less_0_iff)
  ultimately show ?thesis
    using True by (simp add: trunc_def)
next
  case False
  have "clampSample x * 32767 \<le> (32767 :: real)"
    using clampSample_bounds [of x] by simp
  then have "\<lfloor>clampSample x * 32767\<rfloor> \<le> \<lfloor>32767 :: real\<rfloor>"
    by (rule floor_mono)
  moreover have "0 \<le> clampSample x * 32767"
    using False by simp
  ultimately show ?thesis
    using False by (simp add: trunc_def)
qed

lemma sint_wavSample:
  "sint (wavSample x) =
     trunc (if clampSample x < 0 then clampSample x * 32768 else clampSample x * 32767)"
  using wav_scaled_bounds [of x]
  by (simp add: wavSample_def Let_def ToInt16_def sint_word16_of_int)

text \<open>
  Claim C2.  Whatever the mixed amplitude \<open>x\<close> is (also outside \<open>[-1, 1]\<close>, as when
  two full-scale percussion hits overlap and sum to 2), both quantizers first clamp
  it to \<open>[-1, 1]\<close>; the 16-bit value stored is the scaled integer itself, not a
  wrapped residue of it, and it lies in \<open>[-32768, 32767]\<close>.
\<close>

theorem quantize_clamps_without_wraparound:
  "- 1 \<le> clampSample x \<and> clampSample x \<le> 1
   \<and> sint (quantizeSample x) = \<lfloor>clampSample x * 32767\<rfloor>
   \<and> - 32768 \<le> sint (quantizeSample x) \<and> sint (quantizeSample x) \<le> 32767
   \<and> sint (wavSample x)
       = trunc (if clampSample x < 0 then clampSample x * 32768 else clampSample x * 32767)
   \<and> - 32768 \<le> sint (wavSample x) \<and> sint (wavSample x) \<le> 32767
   \<and> map sint (quantizeToPCM16 outputBuffer)
       = map (\<lambda>y. \<lfloor>clampSample y * 32767\<rfloor>) outputBuffer
   \<and> sint (quantizeSample (1 + 1)) = 32767 \<and> sint (quantizeSample (- 1 - 1)) = - 32767"
proof -
  have "sint (quantizeSample (1 + 1)) = 32767" "sint (quantizeSample (- 1 - 1)) = - 32767"
    by (simp_all add: sint_quantizeSample clampSample_def)
  then show ?thesis
    using clampSample_bounds [of x] floor_scaled_bounds [of x] wav_scaled_bounds [of x]
    by (simp add: sint_quantizeSample sint_wavSample quantizeToPCM16_def comp_def)
qed

section \<open>The loops write inside the output buffer\<close>

lemma length_taAddAssign: "length (taAddAssign a i v) = length a"
  by (simp add: taAddAssign_def)

lemma length_taMulAssign: "length (taMulAssign a i v) = length a"
  by (simp add: taMulAssign_def)

lemma nth_taAddAssign:
  "j < length a \<Longrightarrow> taAddAssign a i v ! j = (if int j = i then a ! j + v else a ! j)"
  by (auto simp: taAddAssign_def nth_list_update)

lemma nth_taMulAssign:
  "j < length a \<Longrightarrow> taMulAssign a i v ! j = (if int j = i then a ! j * v else a ! j)"
  by (auto simp: taMulAssign_def nth_list_update)

lemma length_addSamples:
  "length (addSamples totalSamples samplePosition tickSamples gain outputBuffer i)
     = length outputBuffer"
proof (induction totalSamples samplePosition tickSamples gain outputBuffer i
       rule: addSamples.induct)
  case (1 totalSamples samplePosition tickSamples gain outputBuffer i)
  show ?case
  proof (cases "i < length tickSamples")
    case True
    then show ?thesis
      using "1.IH" [OF True refl]
      by (subst addSamples.simps) (simp add: Let_def length_taAddAssign)
  next
    case False
    then show ?thesis
      by (subst addSamples.simps) simp
  qed
qed

lemma nth_addSamples:
  "j < length outputBuffer \<Longrightarrow>
   addSamples totalSamples samplePosition tickSamples gain outputBuffer i ! j
     = outputBuffer ! j
       + (if int i \<le> int j - samplePosition \<and> int j - samplePosition < int (length tickSamples)
             \<and> j < totalSamples
          then tickSamples ! nat (int j - samplePosition) * gain else 0)"
proof (induction totalSamples samplePosition tickSamples gain outputBuffer i
       rule: addSamples.induct)
  case (1 totalSamples samplePosition tickSamples gain outputBuffer i)
  show ?case
  proof (cases "i < length tickSamples")
    case True
    let ?out = "if samplePosition + int i < int totalSamples
                then taAddAssign outputBuffer (samplePosition + int i) (tickSamples ! i * gain)
                else outputBuffer"
    have len: "j < length ?out"
      using "1.prems" by (simp add: length_taAddAssign)
    have step: "addSamples totalSamples samplePosition tickSamples gain outputBuffer i
                = addSamples totalSamples samplePosition tickSamples gain ?out (Suc i)"
      using True by (subst addSamples.simps) (simp add: Let_def)
    have here: "?out ! j = outputBuffer ! j
                 + (if int j - samplePosition = int i \<and> j < totalSamples
                    then tickSamples ! i * gain else 0)"
      using "1.prems" by (auto simp: nth_taAddAssign)
    show ?thesis
      unfolding step "1.IH" [OF True refl len] here
      using True by (auto simp: nat_eq_iff)
  next
    case False
    then show ?thesis
      by (subst addSamples.simps) auto
  qed
qed

lemma length_duckLoop:
  "length (duckLoop samplePosition duckStart duckEnd attackSamples duckingAmount outputData i)
     = length outputData"
proof (induction samplePosition duckStart duckEnd attackSamples duckingAmount outputData i
       rule: duckLoop.induct)
  case (1 samplePosition duckStart duckEnd attackSamples duckingAmount outputData i)
  show ?case
  proof (cases "i < duckEnd")
    case True
    then show ?thesis
      using "1.IH" [OF True]
      by (subst duckLoop.simps) (simp add: length_taMulAssign)
  next
    case False
    then show ?thesis
      by (subst duckLoop.simps) simp
  qed
qed

lemma nth_duckLoop:
  "j < length outputData \<Longrightarrow>
   duckLoop samplePosition duckStart duckEnd attackSamples duckingAmount outputData i ! j
     = outputData ! j
       * (if i \<le> int j \<and> int j < duckEnd
          then duckGain samplePosition duckStart attackSamples duckingAmount (int j) else 1)"
proof (induction samplePosition duckStart duckEnd attackSamples duckingAmount outputData i
       rule: duckLoop.induct)
  case (1 samplePosition duckStart duckEnd attackSamples duckingAmount outputData i)
  show ?case
  proof (cases "i < duckEnd")
    case True
    let ?out = "taMulAssign outputData i
                  (duckGain samplePosition duckStart attackSamples duckingAmount i)"
    have len: "j < length ?out"
      using "1.prems" by (simp add: length_taMulAssign)
    have step: "duckLoop samplePosition duckStart duckEnd attackSamples duckingAmount outputData i
                = duckLoop samplePosition duckStart duckEnd attackSamples duckingAmount ?out (i + 1)"
      using True by (subst duckLoop.simps) simp
    have here: "?out ! j = outputData ! j
                 * (if int j = i
                    then duckGain samplePosition duckStart attackSamples duckingAmount i else 1)"
      using "1.prems" by (simp add: nth_taMulAssign)
    show ?thesis
      unfolding step "1.IH" [OF True len] here
      using True by auto
  next
    case False
    then show ?thesis
      by (subst duckLoop.simps) auto
  qed
qed

lemma length_sidechainLoop:
  "length (sidechainLoop totalSamples samplePosition duckDuration attackSamples releaseSamples
             duckAmount kickDuration outputData i)
     = length outputData"
proof (induction totalSamples samplePosition duckDuration attackSamples releaseSamples
         duckAmount kickDuration outputData i rule: sidechainLoop.induct)
  case (1 totalSamples samplePosition duckDuration attackSamples releaseSamples duckAmount
          kickDuration outputData i)
  show ?case
  proof (cases "int i < duckDuration \<and> samplePosition + int i < int totalSamples")
    case True
    then show ?thesis
      using "1.IH" [OF True]
      by (subst sidechainLoop.simps) (simp add: length_taMulAssign)
  next
    case False
    then show ?thesis
      by (subst sidechainLoop.simps) auto
  qed
qed

lemma nth_sidechainLoop:
  "j < length outputData \<Longrightarrow>
   sidechainLoop totalSamples samplePosition duckDuration attackSamples releaseSamples
     duckAmount kickDuration outputData i ! j
     = outputData ! j
       * (if int i \<le> int j - samplePosition \<and> int j - samplePosition < duckDuration
             \<and> j < totalSamples
          then envelope attackSamples releaseSamples duckAmount kickDuration
                 (nat (int j - samplePosition))
          else 1)"
proof (induction totalSamples samplePosition duckDuration attackSamples releaseSamples
         duckAmount kickDuration outputData i rule: sidechainLoop.induct)
  case (1 totalSamples samplePosition duckDuration attackSamples releaseSamples duckAmount
          kickDuration outputData i)
  show ?case
  proof (cases "int i < duckDuration \<and> samplePosition + int i < int totalSamples")
    case True
    let ?out = "taMulAssign outputData (samplePosition + int i)
                  (envelope attackSamples releaseSamples duckAmount kickDuration i)"
    have len: "j < length ?out"
      using "1.prems" by (simp add: length_taMulAssign)
    have step: "sidechainLoop totalSamples samplePosition duckDuration attackSamples
                  releaseSamples duckAmount kickDuration outputData i
                = sidechainLoop totalSamples samplePosition duckDuration attackSamples
                    releaseSamples duckAmount kickDuration ?out (Suc i)"
      using True by (subst sidechainLoop.simps) simp
    have here: "?out ! j = outputData ! j
                 * (if int j - samplePosition = int i
                    then envelope attackSamples releaseSamples duckAmount kickDuration i else 1)"
      using "1.prems" by (auto simp: nth_taMulAssign)
    show ?thesis
      unfolding step "1.IH" [OF True len] here
      using True by (auto simp: nat_eq_iff)
  next
    case False
    then show ?thesis
      by (subst sidechainLoop.simps) auto
  qed
qed

lemma length_fold_same:
  assumes "\<And>x out. length (f x out) = length out"
  shows "length (fold f xs out) = length out"
  using assms by (induction xs arbitrary: out) simp_all

lemma length_serverBeat:
  "length (serverBeat sampleRate totalSamples tickSamples tockSamples arr index outputBuffer)
     = length outputBuffer"
  by (simp add: serverBeat_def Let_def length_addSamples split: option.split)

lemma length_tickTockBeat:
  "length (tickTockBeat sampleRate totalSamples tickSamples tockSamples arr index outputData)
     = length outputData"
  by (simp add: tickTockBeat_def Let_def length_addSamples)

lemma length_duckBeat:
  "length (duckBeat sampleRate totalSamples tickSamples beatTime outputData) = length outputData"
  by (simp add: duckBeat_def Let_def length_addSamples length_duckLoop)

lemma length_sidechainBeat:
  "length (sidechainBeat sampleRate totalSamples tickSamples beatTime outputData)
     = length outputData"
  by (simp add: sidechainBeat_def Let_def length_addSamples length_sidechainLoop)

lemma length_serverMix:
  "length (serverMix music sampleRate ticks tickSamples tockSamples) = length music"
  by (simp add: serverMix_def Let_def length_fold_same length_serverBeat)

lemma length_tickTock:
  "length (processAudioInBrowser_tickTock audioData sampleRate beats tickSamples tockSamples)
     = length audioData"
  by (simp add: processAudioInBrowser_tickTock_def Let_def length_fold_same length_tickTockBeat)

lemma length_duck:
  "length (processAudioInBrowser_duck audioData sampleRate beats tickSamples) = length audioData"
  by (simp add: processAudioInBrowser_duck_def Let_def length_fold_same length_duckBeat)

lemma length_sidechain:
  "length (processAudioInBrowser_sidechain audioData sampleRate beats tickSamples)
     = length audioData"
  by (simp add: processAudioInBrowser_sidechain_def Let_def length_fold_same length_sidechainBeat)

section \<open>No beats: the scaled original\<close>

text \<open>
  Claim C1.  With an empty beat sequence every variant returns the original with each
  sample multiplied by the base volume and nothing else changed: 0.5 in the two
  tick-and-tock variants (the server variant then quantizes that buffer), 1.0 in the
  two ducking variants.
\<close>

theorem empty_beats_scale_only:
  "serverMix original sampleRate [] tickSamples tockSamples = map (\<lambda>x. x * 0.5) original
   \<and> processAudioWithBeats original sampleRate [] tickSamples tockSamples
       = quantizeToPCM16 (map (\<lambda>x. x * 0.5) original)
   \<and> processAudioInBrowser_tickTock original sampleRate [] tickSamples tockSamples
       = map (\<lambda>x. x * 0.5) original
   \<and> processAudioInBrowser_duck original sampleRate [] tickSamples = map (\<lambda>x. x * 1.0) original
   \<and> processAudioInBrowser_sidechain original sampleRate [] tickSamples
       = map (\<lambda>x. x * 1.0) original"
  by (simp add: serverMix_def processAudioWithBeats_def processAudioInBrowser_tickTock_def
      processAudioInBrowser_duck_def processAudioInBrowser_sidechain_def)

section \<open>Overlay writes and the buffer bounds\<close>

text \<open>
  Claim C9.  For every sample position (negative, inside, or so late that the
  percussion sample runs past the end) and every percussion sample, the overlay loop
  returns a buffer of the same length, in which index \<open>j\<close> has gained the percussion
  sample's value for that index when the index is hit and is unchanged otherwise:
  writes that would land outside \<open>[0, length)\<close> are dropped.  No branch of the overlay
  raises, and every variant's output has the length of its input for every beat list.
\<close>

theorem overlay_stays_inside_output:
  assumes "j < length outputBuffer"
  shows "length (addSamples totalSamples samplePosition tickSamples gain outputBuffer 0)
           = length outputBuffer
   \<and> addSamples totalSamples samplePosition tickSamples gain outputBuffer 0 ! j
       = outputBuffer ! j
         + (if samplePosition \<le> int j \<and> int j < samplePosition + int (length tickSamples)
               \<and> j < totalSamples
            then tickSamples ! nat (int j - samplePosition) * gain else 0)
   \<and> length (serverMix music sampleRate beats tickSamples tockSamples) = length music
   \<and> length (processAudioInBrowser_tickTock music sampleRate beats tickSamples tockSamples)
       = length music
   \<and> length (processAudioInBrowser_duck music sampleRate beats tickSamples) = length music
   \<and> length (processAudioInBrowser_sidechain music sampleRate beats tickSamples) = length music"
proof -
  have "addSamples totalSamples samplePosition tickSamples gain outputBuffer 0 ! j
          = outputBuffer ! j
            + (if samplePosition \<le> int j \<and> int j < samplePosition + int (length tickSamples)
                  \<and> j < totalSamples
               then tickSamples ! nat (int j - samplePosition) * gain else 0)"
    using assms by (auto simp: nth_addSamples)
  then show ?thesis
    by (simp add: length_addSamples length_serverMix length_tickTock length_duck length_sidechain)
qed

text \<open>
  A beat on the last sample of a three-sample buffer with a three-sample percussion
  hit: the first percussion sample is added, the other two are dropped.  A position one
  sample before the buffer: the first percussion sample is dropped, the second lands on
  index 0.
\<close>

theorem overlay_stays_inside_output_witness:
  "length (addSamples 3 2 [1, 2, 3] (2 / 5) [0, 0, 0] 0) = 3
   \<and> addSamples 3 2 [1, 2, 3] (2 / 5) [0, 0, 0] 0 ! 2 = 2 / 5
   \<and> addSamples 3 2 [1, 2, 3] (2 / 5) [0, 0, 0] 0 ! 1 = 0
   \<and> length (addSamples 3 (- 1) [1, 2, 3] (2 / 5) [0, 0, 0] 0) = 3
   \<and> addSamples 3 (- 1) [1, 2, 3] (2 / 5) [0, 0, 0] 0 ! 0 = 4 / 5"
proof -
  have h: "(2 :: nat) < length [0 :: real, 0, 0]" "(1 :: nat) < length [0 :: real, 0, 0]"
    "(0 :: nat) < length [0 :: real, 0, 0]"
    by simp_all
  show ?thesis
    using overlay_stays_inside_output
      [OF h(1), where totalSamples = 3 and samplePosition = 2 and tickSamples = "[1, 2, 3]"
         and gain = "2 / 5"]
      overlay_stays_inside_output
      [OF h(2), where totalSamples = 3 and samplePosition = 2 and tickSamples = "[1, 2, 3]"
         and gain = "2 / 5"]
      overlay_stays_inside_output
      [OF h(3), where totalSamples = 3 and samplePosition = "- 1" and tickSamples = "[1, 2, 3]"
         and gain = "2 / 5"]
    by simp
qed

section \<open>The tock position\<close>

lemma halfBeatPosition_successor:
  assumes "index + 1 < length arr" and "arr ! (index + 1) \<noteq> 0"
  shows "halfBeatPosition arr index sampleRate
           = \<lfloor>(arr ! index + \<bar>arr ! (index + 1) - arr ! index\<bar> / 2) * real sampleRate\<rfloor>"
  using assms by (simp add: halfBeatPosition_def nextBeat_def Let_def)

lemma halfBeatPosition_last:
  assumes "index + 1 = length arr"
  shows "halfBeatPosition arr index sampleRate = \<lfloor>(arr ! index + 0.25) * real sampleRate\<rfloor>"
  using assms by (simp add: halfBeatPosition_def nextBeat_def Let_def)

lemma halfBeatPostition_successor:
  assumes "index + 1 < length arr"
  shows "halfBeatPostition arr index sampleRate
           = Some \<lfloor>(arr ! index + \<bar>arr ! (index + 1) - arr ! index\<bar> / 2) * real sampleRate\<rfloor>"
  using assms by (simp add: halfBeatPostition_def Let_def)

lemma halfBeatPostition_last:
  assumes "index + 1 = length arr"
  shows "halfBeatPostition arr index sampleRate = None"
  using assms by (simp add: halfBeatPostition_def)

text \<open>
  Claim C3.  For beats \<open>[1.0, 2.0]\<close> at 44100 Hz both tick-and-tock variants put the
  tock of beat 0 at sample 66150.  For a last beat the browser variant synthesizes the
  next beat half a second later: a single beat at 1.0 s gives sample 55125, and on two
  seconds of silence with a one-sample tick and a one-sample tock that sample becomes
  0.4.  The server variant computes no position for a last beat: on the same input it
  adds the tick at sample 44100 and leaves sample 55125 at 0, and for every beat list
  the last beat's callback adds the tick only, whatever the tock sample is.  The browser
  variant also takes the fallback when the next beat is at time 0.
\<close>

theorem server_last_beat_gets_no_tock:
  "halfBeatPostition [1, 2] 0 44100 = Some 66150
   \<and> halfBeatPosition [1, 2] 0 44100 = 66150
   \<and> halfBeatPosition [1] 0 44100 = 55125
   \<and> processAudioInBrowser_tickTock (replicate 88200 0) 44100 [1] [1] [1] ! 55125 = 2 / 5
   \<and> halfBeatPostition [1] 0 44100 = None
   \<and> serverMix (replicate 88200 0) 44100 [1] [1] [1] ! 44100 = 2 / 5
   \<and> serverMix (replicate 88200 0) 44100 [1] [1] [1] ! 55125 = 0
   \<and> serverBeat sampleRate totalSamples tickSamples tockSamples arr (length arr - 1) outputBuffer
       = addSamples totalSamples \<lfloor>arr ! (length arr - 1) * real sampleRate\<rfloor> tickSamples 0.4
           outputBuffer 0
   \<and> halfBeatPosition [0, 0] 0 44100 = 11025"
proof -
  have pos: "halfBeatPostition [1, 2] 0 44100 = Some 66150"
    "halfBeatPosition [1, 2] 0 44100 = 66150"
    "halfBeatPosition [1] 0 44100 = 55125"
    "halfBeatPostition [1] 0 44100 = None"
    "halfBeatPosition [0, 0] 0 44100 = 11025"
    by (simp_all add: halfBeatPostition_def halfBeatPosition_def nextBeat_def)
  have browser: "processAudioInBrowser_tickTock (replicate 88200 0) 44100 [1] [1] [1] ! 55125
                   = 2 / 5"
    by (simp add: processAudioInBrowser_tickTock_def tickTockBeat_def pos length_addSamples
        nth_addSamples)
  have server: "serverMix (replicate 88200 0) 44100 [1] [1] [1] ! 44100 = 2 / 5"
    "serverMix (replicate 88200 0) 44100 [1] [1] [1] ! 55125 = 0"
    by (simp_all add: serverMix_def serverBeat_def pos nth_addSamples)
  have last: "serverBeat sampleRate totalSamples tickSamples tockSamples arr (length arr - 1)
                outputBuffer
       = addSamples totalSamples \<lfloor>arr ! (length arr - 1) * real sampleRate\<rfloor> tickSamples 0.4
           outputBuffer 0"
  proof -
    have "\<not> (length arr - 1) + 1 < length arr"
      by linarith
    then have "halfBeatPostition arr (length arr - 1) sampleRate = None"
      unfolding halfBeatPostition_def by (rule if_not_P)
    then show ?thesis
      by (simp add: serverBeat_def Let_def)
  qed
  show ?thesis
    using pos browser server last by simp
qed

section \<open>Quantization: the rounding rule\<close>

lemma clampSample_neg_iff: "clampSample x < 0 \<longleftrightarrow> x < 0"
  by (auto simp: clampSample_def)

lemma floor_is_trunc_nonneg: "0 \<le> y \<Longrightarrow> \<lfloor>y\<rfloor> = trunc y"
  by (simp add: trunc_def)

lemma floor_is_trunc_minus_one:
  assumes "y < 0" and "real_of_int \<lfloor>y\<rfloor> \<noteq> y"
  shows "\<lfloor>y\<rfloor> = trunc y - 1"
  using assms by (simp add: trunc_def ceiling_altdef)

lemma floor_is_trunc_integer:
  assumes "real_of_int \<lfloor>y\<rfloor> = y"
  shows "\<lfloor>y\<rfloor> = trunc y"
proof -
  obtain n where "y = real_of_int n"
    using assms by metis
  then show ?thesis
    by (simp add: trunc_def)
qed

text \<open>
  Claim C5, as stated, at \<open>x = -0.5\<close>: the product is \<open>-16383.5\<close>; rounding toward
  zero gives \<open>-16383\<close>, the server's quantizer stores \<open>-16384\<close>, and so does the WAV
  writer (which multiplies a negative sample by 32768).
\<close>

theorem quantize_toward_zero_counterexample:
  "sint (quantizeSample (- 1 / 2)) = - 16384 \<and> specQuantize (- 1 / 2) = - 16383
   \<and> sint (wavSample (- 1 / 2)) = - 16384"
  by (simp add: sint_quantizeSample sint_wavSample specQuantize_def clampSample_def trunc_def)

text \<open>
  Claim C5, amended.  The server's quantizer maps \<open>x\<close> to the floor of
  \<open>clamp x * 32767\<close>, that is, it rounds toward minus infinity: for \<open>x \<ge> 0\<close> (and
  whenever the product is an integer) that is the value rounded toward zero, for a
  negative product that is not an integer it is one less.  The WAV writer rounds toward
  zero, after scaling a negative sample by 32768 and any other by 32767.  Each writer
  applies its rule to every sample of the buffer.
\<close>

theorem quantize_rounds_down:
  "sint (quantizeSample x) = \<lfloor>clampSample x * 32767\<rfloor>
   \<and> (0 \<le> x \<longrightarrow> sint (quantizeSample x) = specQuantize x)
   \<and> (x < 0 \<and> real_of_int \<lfloor>clampSample x * 32767\<rfloor> \<noteq> clampSample x * 32767
        \<longrightarrow> sint (quantizeSample x) = specQuantize x - 1)
   \<and> (real_of_int \<lfloor>clampSample x * 32767\<rfloor> = clampSample x * 32767
        \<longrightarrow> sint (quantizeSample x) = specQuantize x)
   \<and> map sint (quantizeToPCM16 outputBuffer)
       = map (\<lambda>y. \<lfloor>clampSample y * 32767\<rfloor>) outputBuffer
   \<and> sint (wavSample x) = trunc (clampSample x * (if x < 0 then 32768 else 32767))
   \<and> map sint (wavSamples channel)
       = map (\<lambda>y. trunc (clampSample y * (if y < 0 then 32768 else 32767))) channel"
proof -
  let ?y = "clampSample x * 32767"
  have a: "0 \<le> x \<longrightarrow> \<lfloor>?y\<rfloor> = trunc ?y"
  proof
    assume "0 \<le> x"
    then have "0 \<le> ?y"
      by (simp add: clampSample_def)
    then show "\<lfloor>?y\<rfloor> = trunc ?y"
      by (rule floor_is_trunc_nonneg)
  qed
  have b: "x < 0 \<and> real_of_int \<lfloor>?y\<rfloor> \<noteq> ?y \<longrightarrow> \<lfloor>?y\<rfloor> = trunc ?y - 1"
  proof
    assume h: "x < 0 \<and> real_of_int \<lfloor>?y\<rfloor> \<noteq> ?y"
    then have "?y < 0"
      by (simp add: clampSample_def)
    then show "\<lfloor>?y\<rfloor> = trunc ?y - 1"
      using h by (intro floor_is_trunc_minus_one) simp_all
  qed
  have c: "real_of_int \<lfloor>?y\<rfloor> = ?y \<longrightarrow> \<lfloor>?y\<rfloor> = trunc ?y"
    using floor_is_trunc_integer [of ?y] by blast
  have wav: "sint (wavSample y) = trunc (clampSample y * (if y < 0 then 32768 else 32767))"
    for y
    by (simp add: sint_wavSample clampSample_neg_iff)
  have d: "map sint (quantizeToPCM16 outputBuffer)
             = map (\<lambda>y. \<lfloor>clampSample y * 32767\<rfloor>) outputBuffer"
    by (simp add: quantizeToPCM16_def comp_def sint_quantizeSample)
  have e: "map sint (wavSamples channel)
       = map (\<lambda>y. trunc (clampSample y * (if y < 0 then 32768 else 32767))) channel"
    by (simp add: wavSamples_def comp_def wav)
  show ?thesis
    unfolding sint_quantizeSample specQuantize_def
    using a b c d e wav [of x] by blast
qed

theorem quantize_rounds_down_witness:
  "(0 :: real) \<le> 1 / 2 \<and> sint (quantizeSample (1 / 2)) = specQuantize (1 / 2)
   \<and> (- 1 / 2 :: real) < 0
   \<and> real_of_int \<lfloor>clampSample (- 1 / 2) * 32767\<rfloor> \<noteq> clampSample (- 1 / 2) * 32767
   \<and> sint (quantizeSample (- 1 / 2)) = specQuantize (- 1 / 2) - 1
   \<and> real_of_int \<lfloor>clampSample (- 1) * 32767\<rfloor> = clampSample (- 1) * 32767
   \<and> sint (quantizeSample (- 1)) = specQuantize (- 1)"
proof -
  have h1: "(0 :: real) \<le> 1 / 2"
    by simp
  have h2: "(- 1 / 2 :: real) < 0
     \<and> real_of_int \<lfloor>clampSample (- 1 / 2) * 32767\<rfloor> \<noteq> clampSample (- 1 / 2) * 32767"
    by (simp add: clampSample_def)
  have h3: "real_of_int \<lfloor>clampSample (- 1) * 32767\<rfloor> = clampSample (- 1) * 32767"
    by (simp add: clampSample_def)
  show ?thesis
    using h1 h2 h3 quantize_rounds_down [of "1 / 2" "[]" "[]"]
      quantize_rounds_down [of "- 1 / 2" "[]" "[]"] quantize_rounds_down [of "- 1" "[]" "[]"]
    by blast
qed

section \<open>The ducking envelope of one beat\<close>

lemma nth_sidechainBeat:
  assumes "j < length outputData"
  shows "sidechainBeat sampleRate totalSamples tickSamples beatTime outputData ! j
     = outputData ! j
       * (if 0 \<le> int j - \<lfloor>beatTime * real sampleRate\<rfloor>
             \<and> int j - \<lfloor>beatTime * real sampleRate\<rfloor>
                 < int (length tickSamples) + \<lfloor>0.15 * real sampleRate\<rfloor>
             \<and> j < totalSamples
          then envelope \<lfloor>0.01 * real sampleRate\<rfloor> \<lfloor>0.15 * real sampleRate\<rfloor> 0.2
                 (length tickSamples) (nat (int j - \<lfloor>beatTime * real sampleRate\<rfloor>))
          else 1)
       + (if 0 \<le> int j - \<lfloor>beatTime * real sampleRate\<rfloor>
             \<and> int j - \<lfloor>beatTime * real sampleRate\<rfloor> < int (length tickSamples)
             \<and> j < totalSamples
          then tickSamples ! nat (int j - \<lfloor>beatTime * real sampleRate\<rfloor>) * 0.6 else 0)"
  using assms
  by (simp add: sidechainBeat_def Let_def nth_addSamples length_sidechainLoop nth_sidechainLoop)

lemma nth_duckBeat:
  assumes "j < length outputData"
  shows "duckBeat sampleRate totalSamples tickSamples beatTime outputData ! j
     = outputData ! j
       * (if max 0 (\<lfloor>beatTime * real sampleRate\<rfloor> - \<lfloor>0.01 * real sampleRate\<rfloor>) \<le> int j
             \<and> int j < min (int totalSamples)
                         (\<lfloor>beatTime * real sampleRate\<rfloor> + \<lfloor>0.15 * real sampleRate\<rfloor>)
          then duckGain \<lfloor>beatTime * real sampleRate\<rfloor>
                 (max 0 (\<lfloor>beatTime * real sampleRate\<rfloor> - \<lfloor>0.01 * real sampleRate\<rfloor>))
                 \<lfloor>0.01 * real sampleRate\<rfloor> 0.2 (int j)
          else 1)
       + (if 0 \<le> int j - \<lfloor>beatTime * real sampleRate\<rfloor>
             \<and> int j - \<lfloor>beatTime * real sampleRate\<rfloor> < int (length tickSamples)
             \<and> j < totalSamples
          then tickSamples ! nat (int j - \<lfloor>beatTime * real sampleRate\<rfloor>) * 0.5 else 0)"
  using assms
  by (simp add: duckBeat_def Let_def nth_addSamples length_duckLoop nth_duckLoop)

text \<open>
  Claim C4, as stated, on two seconds of amplitude 1 at 44100 Hz
  (\<open>attackSamples = 441\<close>, \<open>releaseSamples = 6615\<close>) with one beat at 1.0 s
  (\<open>p = 44100\<close>) and a silent kick of 1000 samples (\<open>sustainSamples = 1000\<close>).  The
  claimed gain at index 44099, the last sample of the attack before the beat, is
  \<open>89/441\<close>, but the sidechain variant starts its envelope at the beat and leaves that
  sample at 1.  The claimed gain at index 45200, a hundred samples into the release, is
  \<open>1403/6615\<close>, but the variant of \<^verbatim>\<open>audioProcessor.ts\<close> holds the ducked volume 0.2
  until the end of its window and never ramps back.
\<close>

theorem ducking_window_counterexample:
  "sidechainBeat 44100 88200 (replicate 1000 0) 1 (replicate 88200 1) ! 44099 = 1
   \<and> specDucked 441 1000 6615 (1 / 5) 44100 (replicate 88200 1) ! 44099 = 89 / 441
   \<and> duckBeat 44100 88200 (replicate 1000 0) 1 (replicate 88200 1) ! 45200 = 1 / 5
   \<and> specDucked 441 1000 6615 (1 / 5) 44100 (replicate 88200 1) ! 45200 = 1403 / 6615"
  by (simp add: nth_sidechainBeat nth_duckBeat specDucked_def specDuckGain_def duckGain_def
      envelope_def)

text \<open>
  Claim C4, amended.  One beat at sample position \<open>p\<close> changes index \<open>j\<close> of the output
  (whose length is \<open>totalSamples\<close>) as follows, with \<open>i = j - p\<close> the offset from the beat
  and \<open>duckAmount = 0.2\<close>.

  In the sidechain variant the gain is applied on exactly the indices of the buffer
  with \<open>0 \<le> i < sustainSamples + releaseSamples\<close>, where \<open>sustainSamples\<close> is the length
  of the kick: it goes linearly from 1 towards \<open>duckAmount\<close> while \<open>i < attackSamples\<close>,
  is \<open>duckAmount\<close> until the kick ends, and goes linearly from \<open>duckAmount\<close> back to 1
  during the release.

  In the variant of \<^verbatim>\<open>audioProcessor.ts\<close> the gain is applied on exactly the indices of
  the buffer in \<open>[max 0 (p - attackSamples), p + releaseSamples)\<close>: it goes linearly from
  1 towards \<open>duckAmount\<close> before the beat and is \<open>duckAmount\<close> from the beat to the end of
  the window.

  In both, the kick is then added on the indices it covers.
\<close>

theorem ducking_envelope_per_beat:
  assumes "j < length outputData"
    and "totalSamples = length outputData"
    and "p = \<lfloor>beatTime * real sampleRate\<rfloor>"
    and "attackSamples = \<lfloor>0.01 * real sampleRate\<rfloor>"
    and "releaseSamples = \<lfloor>0.15 * real sampleRate\<rfloor>"
    and "sustainSamples = int (length tickSamples)"
    and "i = int j - p"
    and "duckStart = max 0 (p - attackSamples)"
  shows "sidechainBeat sampleRate totalSamples tickSamples beatTime outputData ! j
       = outputData ! j
         * (if 0 \<le> i \<and> i < sustainSamples + releaseSamples then
              (if i < attackSamples then
                 1 - (1 - 0.2) * (real_of_int i / real_of_int attackSamples)
               else if i < sustainSamples then 0.2
               else 0.2 + (1 - 0.2) * (real_of_int (i - sustainSamples) / real_of_int releaseSamples))
            else 1)
         + (if 0 \<le> i \<and> i < sustainSamples then tickSamples ! nat i * 0.6 else 0)
   \<and> duckBeat sampleRate totalSamples tickSamples beatTime outputData ! j
       = outputData ! j
         * (if duckStart \<le> int j \<and> int j < p + releaseSamples then
              (if int j < p then
                 1 - (real_of_int (int j - duckStart) / real_of_int attackSamples) * (1 - 0.2)
               else 0.2)
            else 1)
         + (if 0 \<le> i \<and> i < sustainSamples then tickSamples ! nat i * 0.5 else 0)"
proof -
  have jT: "j < totalSamples"
    using assms(1,2) by simp
  have side: "sidechainBeat sampleRate totalSamples tickSamples beatTime outputData ! j
       = outputData ! j
         * (if 0 \<le> i \<and> i < sustainSamples + releaseSamples then
              envelope attackSamples releaseSamples 0.2 (length tickSamples) (nat i)
            else 1)
         + (if 0 \<le> i \<and> i < sustainSamples then tickSamples ! nat i * 0.6 else 0)"
    using assms(1) jT
    by (simp add: nth_sidechainBeat assms(3-7))
  have env: "envelope attackSamples releaseSamples 0.2 (length tickSamples) (nat i)
       = (if i < attackSamples then
            1 - (1 - 0.2) * (real_of_int i / real_of_int attackSamples)
          else if i < sustainSamples then 0.2
          else 0.2 + (1 - 0.2) * (real_of_int (i - sustainSamples) / real_of_int releaseSamples))"
    if "0 \<le> i"
  proof -
    have b: "real (nat i) = real_of_int i"
      using that by simp
    have c: "nat i < length tickSamples \<longleftrightarrow> i < int (length tickSamples)"
      using that by linarith
    show ?thesis
      using that by (simp add: envelope_def Let_def assms(6) b c)
  qed
  have duck: "duckBeat sampleRate totalSamples tickSamples beatTime outputData ! j
       = outputData ! j
         * (if duckStart \<le> int j \<and> int j < p + releaseSamples then
              duckGain p duckStart attackSamples 0.2 (int j)
            else 1)
         + (if 0 \<le> i \<and> i < sustainSamples then tickSamples ! nat i * 0.5 else 0)"
    using assms(1) jT
    by (simp add: nth_duckBeat assms(3-8))
  show ?thesis
    unfolding side duck
    using env by (simp add: duckGain_def Let_def)
qed

text \<open>
  On the same track: in the sidechain variant a sample in the attack after the beat, one
  in the sustain and one in the release; in the other variant a sample in the attack
  before the beat and one after the beat.
\<close>

theorem ducking_envelope_per_beat_witness:
  "sidechainBeat 44100 88200 (replicate 1000 0) 1 (replicate 88200 1) ! 44300 = 281 / 441
   \<and> sidechainBeat 44100 88200 (replicate 1000 0) 1 (replicate 88200 1) ! 44800 = 1 / 5
   \<and> sidechainBeat 44100 88200 (replicate 1000 0) 1 (replicate 88200 1) ! 45200 = 1403 / 6615
   \<and> duckBeat 44100 88200 (replicate 1000 0) 1 (replicate 88200 1) ! 43900 = 1241 / 2205
   \<and> duckBeat 44100 88200 (replicate 1000 0) 1 (replicate 88200 1) ! 44300 = 1 / 5"
proof -
  note t = ducking_envelope_per_beat
    [where outputData = "replicate 88200 1" and totalSamples = 88200 and beatTime = 1
       and sampleRate = 44100 and tickSamples = "replicate 1000 0" and p = 44100
       and attackSamples = 441 and releaseSamples = 6615 and sustainSamples = 1000
       and duckStart = 43659]
  show ?thesis
    using t [of 44300 200] t [of 44800 700] t [of 45200 1100] t [of 43900 "- 200"]
    by simp
qed

section \<open>The crossfade compositor\<close>

lemma length_taSet: "length (taSet a i v) = length a"
  by (simp add: taSet_def)

lemma nth_taSet: "j < length a \<Longrightarrow> taSet a i v ! j = (if j = i then v else a ! j)"
  by (auto simp: taSet_def nth_list_update)

lemma length_writeSlice:
  "length (writeSlice crossfadeSamples sliceData currentPosition outputData i)
     = length outputData"
proof (induction crossfadeSamples sliceData currentPosition outputData i
       rule: writeSlice.induct)
  case (1 crossfadeSamples sliceData currentPosition outputData i)
  show ?case
  proof (cases "i < length sliceData")
    case True
    then show ?thesis
      using "1.IH" [OF True]
      by (subst writeSlice.simps) (simp add: length_taSet)
  next
    case False
    then show ?thesis
      by (subst writeSlice.simps) simp
  qed
qed

lemma nth_writeSlice:
  "j < length outputData \<Longrightarrow>
   writeSlice crossfadeSamples sliceData currentPosition outputData i ! j
     = (if currentPosition + i \<le> j \<and> j < currentPosition + length sliceData
        then fadedSample crossfadeSamples sliceData (j - currentPosition)
        else outputData ! j)"
proof (induction crossfadeSamples sliceData currentPosition outputData i
       rule: writeSlice.induct)
  case (1 crossfadeSamples sliceData currentPosition outputData i)
  show ?case
  proof (cases "i < length sliceData")
    case True
    let ?out = "taSet outputData (currentPosition + i)
                  (fadedSample crossfadeSamples sliceData i)"
    have len: "j < length ?out"
      using "1.prems" by (simp add: length_taSet)
    have step: "writeSlice crossfadeSamples sliceData currentPosition outputData i
                = writeSlice crossfadeSamples sliceData currentPosition ?out (Suc i)"
      using True by (subst writeSlice.simps) simp
    have here: "?out ! j = (if j = currentPosition + i
                            then fadedSample crossfadeSamples sliceData i else outputData ! j)"
      using "1.prems" by (simp add: nth_taSet)
    show ?thesis
      unfolding step "1.IH" [OF True len] here
      using True by auto
  next
    case False
    then show ?thesis
      by (subst writeSlice.simps) auto
  qed
qed

lemma writeSlice_eq:
  assumes "currentPosition + length sliceData \<le> length outputData"
  shows "writeSlice crossfadeSamples sliceData currentPosition outputData 0
           = take currentPosition outputData @ fadedSlice crossfadeSamples sliceData
             @ drop (currentPosition + length sliceData) outputData"
proof (rule nth_equalityI)
  show "length (writeSlice crossfadeSamples sliceData currentPosition outputData 0)
          = length (take currentPosition outputData @ fadedSlice crossfadeSamples sliceData
             @ drop (currentPosition + length sliceData) outputData)"
    using assms by (simp add: length_writeSlice fadedSlice_def)
next
  fix j
  assume "j < length (writeSlice crossfadeSamples sliceData currentPosition outputData 0)"
  then have j: "j < length outputData"
    by (simp add: length_writeSlice)
  consider "j < currentPosition"
    | "currentPosition \<le> j" "j < currentPosition + length sliceData"
    | "currentPosition + length sliceData \<le> j"
    by linarith
  then show "writeSlice crossfadeSamples sliceData currentPosition outputData 0 ! j
          = (take currentPosition outputData @ fadedSlice crossfadeSamples sliceData
             @ drop (currentPosition + length sliceData) outputData) ! j"
  proof cases
    case 1
    then show ?thesis
      using j assms by (simp add: nth_writeSlice nth_append)
  next
    case 2
    then have "j - currentPosition < length sliceData"
      by linarith
    then show ?thesis
      using 2 j assms by (simp add: nth_writeSlice nth_append fadedSlice_def)
  next
    case 3
    then have "\<not> j - currentPosition < length sliceData" "\<not> j < currentPosition"
      by linarith+
    then show ?thesis
      using 3 j assms by (simp add: nth_writeSlice nth_append fadedSlice_def)
  qed
qed

lemma totalSamplesOf_fold:
  "fold (\<lambda>slice totalSamples. totalSamples + length (slice_audioData slice)) selectedSlices n
     = n + sum_list (map (\<lambda>s. length (slice_audioData s)) selectedSlices)"
  by (induction selectedSlices arbitrary: n) simp_all

lemma totalSamplesOf_sum:
  "totalSamplesOf selectedSlices = sum_list (map (\<lambda>s. length (slice_audioData s)) selectedSlices)"
  by (simp add: totalSamplesOf_def totalSamplesOf_fold)

lemma combineLoop_eq:
  assumes "currentPosition + totalSamplesOf selectedSlices \<le> length outputData"
  shows "combineLoop crossfadeSamples selectedSlices currentPosition outputData
           = take currentPosition outputData
             @ concat (map (\<lambda>s. fadedSlice crossfadeSamples (slice_audioData s)) selectedSlices)
             @ drop (currentPosition + totalSamplesOf selectedSlices) outputData"
  using assms
proof (induction selectedSlices arbitrary: currentPosition outputData)
  case Nil
  then show ?case
    by (simp add: totalSamplesOf_sum)
next
  case (Cons sl rest)
  let ?d = "slice_audioData sl"
  let ?out = "writeSlice crossfadeSamples ?d currentPosition outputData 0"
  have tot: "totalSamplesOf (sl # rest) = length ?d + totalSamplesOf rest"
    by (simp add: totalSamplesOf_sum)
  have fits: "currentPosition + length ?d \<le> length outputData"
    using Cons.prems tot by simp
  have out: "?out = take currentPosition outputData @ fadedSlice crossfadeSamples ?d
                    @ drop (currentPosition + length ?d) outputData"
    using fits by (rule writeSlice_eq)
  have lenf: "length (fadedSlice crossfadeSamples ?d) = length ?d"
    by (simp add: fadedSlice_def)
  have pre: "currentPosition + length ?d + totalSamplesOf rest \<le> length ?out"
    using Cons.prems tot by (simp add: length_writeSlice)
  have t: "take (currentPosition + length ?d) ?out
             = take currentPosition outputData @ fadedSlice crossfadeSamples ?d"
    unfolding out using fits lenf by simp
  have d: "drop (currentPosition + length ?d + totalSamplesOf rest) ?out
             = drop (currentPosition + length ?d + totalSamplesOf rest) outputData"
    unfolding out using fits lenf by (simp add: add.commute add.left_commute)
  show ?case
    using Cons.IH [OF pre] t d tot
    by (simp add: Let_def add.assoc)
qed

lemma combineSlices_eq:
  "combineSlices crossfadeSamples selectedSlices
     = concat (map (\<lambda>s. fadedSlice crossfadeSamples (slice_audioData s)) selectedSlices)"
  by (simp add: combineSlices_def Let_def combineLoop_eq)

lemma length_combineSlices:
  "length (combineSlices crossfadeSamples selectedSlices) = totalSamplesOf selectedSlices"
  by (simp add: combineSlices_eq totalSamplesOf_sum length_concat fadedSlice_def comp_def)

lemma fadedSample_formula:
  "fadedSample crossfadeSamples sliceData i
     = sliceData ! i
       * (if int i < crossfadeSamples then real i / real_of_int crossfadeSamples else 1)
       * (if int i > int (length sliceData) - crossfadeSamples
          then (real (length sliceData) - real i) / real_of_int crossfadeSamples else 1)"
  by (simp add: fadedSample_def Let_def)

lemma constantSlices_nth:
  "i < 100 \<Longrightarrow>
   combineSlices 10 [constantSlice 100 1, constantSlice 100 1] ! i
     = fadedSample 10 (replicate 100 1) i"
  "i < 100 \<Longrightarrow>
   combineSlices 10 [constantSlice 100 1, constantSlice 100 1] ! (100 + i)
     = fadedSample 10 (replicate 100 1) i"
  by (simp_all add: combineSlices_eq constantSlice_def fadedSlice_def nth_append)

text \<open>
  Claim C6, as stated, on its own example: two slices of 100 samples of amplitude 1
  and \<open>crossfadeSamples = 10\<close>.  The fade-in gain of sample \<open>i\<close> is \<open>i / 10\<close>, so the
  first sample of each slice (output samples 0 and 100) has amplitude 0, not about 0.1.
\<close>

theorem crossfade_first_sample_counterexample:
  "combineSlices 10 [constantSlice 100 1, constantSlice 100 1] ! 0 = 0
   \<and> combineSlices 10 [constantSlice 100 1, constantSlice 100 1] ! 100 = 0"
  using constantSlices_nth(1) [of 0] constantSlices_nth(2) [of 0]
  by (simp add: fadedSample_def)

text \<open>
  Claim C6, amended.  For every list of slices the output has the summed length of
  the slices and is their concatenation in order, without gaps, each slice with its
  samples faded: sample \<open>i\<close> of a slice of length \<open>n\<close> is multiplied by
  \<open>i / crossfadeSamples\<close> when \<open>i < crossfadeSamples\<close> and by
  \<open>(n - i) / crossfadeSamples\<close> when \<open>i > n - crossfadeSamples\<close>.  For two slices of 100
  samples of amplitude 1 and \<open>crossfadeSamples = 10\<close> the output has 200 samples;
  sample 0 of each slice has amplitude 0 and sample 1 has 0.1; sample 99 has 0.1.
\<close>

theorem crossfade_concatenates_faded_slices:
  "length (combineSlices crossfadeSamples selectedSlices)
     = sum_list (map (\<lambda>s. length (slice_audioData s)) selectedSlices)
   \<and> combineSlices crossfadeSamples selectedSlices
       = concat (map (\<lambda>s. fadedSlice crossfadeSamples (slice_audioData s)) selectedSlices)
   \<and> fadedSlice crossfadeSamples sliceData
       = map (\<lambda>i. sliceData ! i
                   * (if int i < crossfadeSamples
                      then real i / real_of_int crossfadeSamples else 1)
                   * (if int i > int (length sliceData) - crossfadeSamples
                      then (real (length sliceData) - real i) / real_of_int crossfadeSamples
                      else 1))
           [0 ..< length sliceData]
   \<and> length (combineSlices 10 [constantSlice 100 1, constantSlice 100 1]) = 200
   \<and> combineSlices 10 [constantSlice 100 1, constantSlice 100 1] ! 0 = 0
   \<and> combineSlices 10 [constantSlice 100 1, constantSlice 100 1] ! 1 = 1 / 10
   \<and> combineSlices 10 [constantSlice 100 1, constantSlice 100 1] ! 99 = 1 / 10
   \<and> combineSlices 10 [constantSlice 100 1, constantSlice 100 1] ! 100 = 0
   \<and> combineSlices 10 [constantSlice 100 1, constantSlice 100 1] ! 101 = 1 / 10
   \<and> combineSlices 10 [constantSlice 100 1, constantSlice 100 1] ! 199 = 1 / 10"
proof -
  have general: "length (combineSlices crossfadeSamples selectedSlices)
     = sum_list (map (\<lambda>s. length (slice_audioData s)) selectedSlices)
   \<and> combineSlices crossfadeSamples selectedSlices
       = concat (map (\<lambda>s. fadedSlice crossfadeSamples (slice_audioData s)) selectedSlices)"
  proof
    show "length (combineSlices crossfadeSamples selectedSlices)
            = sum_list (map (\<lambda>s. length (slice_audioData s)) selectedSlices)"
      by (simp only: length_combineSlices totalSamplesOf_sum)
    show "combineSlices crossfadeSamples selectedSlices
            = concat (map (\<lambda>s. fadedSlice crossfadeSamples (slice_audioData s)) selectedSlices)"
      by (rule combineSlices_eq)
  qed
  have faded: "fadedSlice crossfadeSamples sliceData
       = map (\<lambda>i. sliceData ! i
                   * (if int i < crossfadeSamples
                      then real i / real_of_int crossfadeSamples else 1)
                   * (if int i > int (length sliceData) - crossfadeSamples
                      then (real (length sliceData) - real i) / real_of_int crossfadeSamples
                      else 1))
           [0 ..< length sliceData]"
    unfolding fadedSlice_def by (rule map_cong [OF refl]) (rule fadedSample_formula)
  have example: "length (combineSlices 10 [constantSlice 100 1, constantSlice 100 1]) = 200
   \<and> combineSlices 10 [constantSlice 100 1, constantSlice 100 1] ! 0 = 0
   \<and> combineSlices 10 [constantSlice 100 1, constantSlice 100 1] ! 1 = 1 / 10
   \<and> combineSlices 10 [constantSlice 100 1, constantSlice 100 1] ! 99 = 1 / 10
   \<and> combineSlices 10 [constantSlice 100 1, constantSlice 100 1] ! 100 = 0
   \<and> combineSlices 10 [constantSlice 100 1, constantSlice 100 1] ! 101 = 1 / 10
   \<and> combineSlices 10 [constantSlice 100 1, constantSlice 100 1] ! 199 = 1 / 10"
    using constantSlices_nth(1) [of 0] constantSlices_nth(1) [of 1] constantSlices_nth(1) [of 99]
      constantSlices_nth(2) [of 0] constantSlices_nth(2) [of 1] constantSlices_nth(2) [of 99]
    by (simp add: fadedSample_def length_combineSlices totalSamplesOf_sum constantSlice_def)
  show ?thesis
    using general faded example by blast
qed

section \<open>Slice extraction\<close>

lemma take_drop_map_nth:
  assumes "e \<le> length a"
  shows "take (e - k) (drop k a) = map (\<lambda>i. a ! i) [k ..< e]"
proof (rule nth_equalityI)
  show "length (take (e - k) (drop k a)) = length (map (\<lambda>i. a ! i) [k ..< e])"
    using assms by simp
next
  fix i
  assume "i < length (take (e - k) (drop k a))"
  then have "i < e - k"
    by simp
  then show "take (e - k) (drop k a) ! i = map (\<lambda>i. a ! i) [k ..< e] ! i"
    using assms by simp
qed

lemma js_slice_nonneg:
  assumes "0 \<le> start" and "0 \<le> final"
  shows "js_slice a start final = map (\<lambda>k. a ! k) [nat start ..< min (nat final) (length a)]"
proof -
  let ?k = "min (nat start) (length a)"
  let ?e = "min (nat final) (length a)"
  have k: "(if start < 0 then max (int (length a) + start) 0 else min start (int (length a)))
             = int ?k"
    using assms by simp
  have e: "(if final < 0 then max (int (length a) + final) 0 else min final (int (length a)))
             = int ?e"
    using assms by simp
  have "js_slice a start final = take (?e - ?k) (drop ?k a)"
    unfolding js_slice_def Let_def k e
    by (simp add: nat_diff_distrib')
  also have "\<dots> = map (\<lambda>k. a ! k) [?k ..< ?e]"
    by (rule take_drop_map_nth) simp
  also have "[?k ..< ?e] = [nat start ..< ?e]"
    by (cases "nat start \<le> length a") simp_all
  finally show ?thesis .
qed

lemma sliceLoop_eq:
  assumes "\<forall>b \<in> set downbeats. 0 \<le> b"
  shows "sliceLoop audioData sampleRate downbeats slices i
     = slices
       @ map (\<lambda>i. specSlice audioData sampleRate (downbeats ! i) (downbeats ! (i + 1)))
           (filter (\<lambda>i. durationOk (downbeats ! i) (downbeats ! (i + 1)))
              [i ..< length downbeats - 1])"
  using assms
proof (induction audioData sampleRate downbeats slices i rule: sliceLoop.induct)
  case (1 audioData sampleRate downbeats slices i)
  show ?case
  proof (cases "int i < int (length downbeats) - 1")
    case True
    then have i: "i < length downbeats - 1" "i < length downbeats" "i + 1 < length downbeats"
      by linarith+
    let ?s = "downbeats ! i"
    let ?e = "downbeats ! (i + 1)"
    have upt: "[i ..< length downbeats - 1] = i # [Suc i ..< length downbeats - 1]"
      using i(1) by (rule upt_conv_Cons)
    have nonneg: "0 \<le> ?s" "0 \<le> ?e"
      using "1.prems" i(2,3) by (auto simp del: One_nat_def)
    have data: "js_slice audioData \<lfloor>?s * real sampleRate\<rfloor> \<lfloor>?e * real sampleRate\<rfloor>
                  = slice_audioData (specSlice audioData sampleRate ?s ?e)"
      using nonneg by (simp add: js_slice_nonneg specSlice_def)
    have new: "\<lparr>slice_audioData
                  = js_slice audioData \<lfloor>?s * real sampleRate\<rfloor> \<lfloor>?e * real sampleRate\<rfloor>,
                slice_startTime = ?s, slice_duration = ?e - ?s\<rparr>
                 = specSlice audioData sampleRate ?s ?e"
      unfolding data by (simp add: specSlice_def)
    show ?thesis
      using True "1.IH" [OF True refl refl refl "1.prems"] 
      apply (subst sliceLoop.simps)
      apply (simp only: Let_def new upt if_True)
      apply (simp add: durationOk_def)
      done
  next
    case False
    then have "length downbeats - 1 \<le> i"
      by linarith
    then show ?thesis
      using False by (subst sliceLoop.simps) simp
  qed
qed

lemma sliceLoop_specSlices:
  assumes "\<forall>b \<in> set downbeats. 0 \<le> b"
  shows "sliceLoop audioData sampleRate downbeats slices 0
           = slices @ specSlices audioData sampleRate downbeats"
  using sliceLoop_eq [OF assms, of audioData sampleRate slices 0]
  by (simp add: specSlices_def)

lemma createSlices_fold:
  assumes "\<forall>track \<in> set allDownbeats. \<forall>b \<in> set (snd track). 0 \<le> b"
  shows "fold (\<lambda>(buffer, downbeats) slices.
             sliceLoop (buffer_channelData buffer) (buffer_sampleRate buffer) downbeats slices 0)
          allDownbeats acc
     = acc @ concat (map (\<lambda>(buffer, downbeats).
                 specSlices (buffer_channelData buffer) (buffer_sampleRate buffer) downbeats)
               allDownbeats)"
  using assms
proof (induction allDownbeats arbitrary: acc)
  case Nil
  then show ?case by simp
next
  case (Cons track rest)
  obtain buffer downbeats where track: "track = (buffer, downbeats)"
    by (cases track)
  have "\<forall>b \<in> set downbeats. 0 \<le> b"
    using Cons.prems track by simp
  then have one: "sliceLoop (buffer_channelData buffer) (buffer_sampleRate buffer) downbeats acc 0
      = acc @ specSlices (buffer_channelData buffer) (buffer_sampleRate buffer) downbeats"
    by (rule sliceLoop_specSlices)
  have rest: "\<forall>track \<in> set rest. \<forall>b \<in> set (snd track). 0 \<le> b"
    using Cons.prems by simp
  show ?case
    using Cons.IH [OF rest] by (simp add: track one)
qed

lemma specSlice_inject:
  assumes "specSlice audioData sampleRate s e = specSlice audioData sampleRate s' e'"
  shows "s = s' \<and> e = e'"
proof -
  have "slice_startTime (specSlice audioData sampleRate s e)
          = slice_startTime (specSlice audioData sampleRate s' e')"
    and "slice_duration (specSlice audioData sampleRate s e)
          = slice_duration (specSlice audioData sampleRate s' e')"
    using assms by simp_all
  then show ?thesis
    by (simp add: specSlice_def)
qed

lemma specSlice_mem_iff:
  assumes "i + 1 < length beats"
  shows "specSlice audioData sampleRate (beats ! i) (beats ! (i + 1))
           \<in> set (specSlices audioData sampleRate beats)
         \<longleftrightarrow> durationOk (beats ! i) (beats ! (i + 1))"
proof
  assume "specSlice audioData sampleRate (beats ! i) (beats ! (i + 1))
            \<in> set (specSlices audioData sampleRate beats)"
  then obtain k where "durationOk (beats ! k) (beats ! (k + 1))"
    and "specSlice audioData sampleRate (beats ! i) (beats ! (i + 1))
           = specSlice audioData sampleRate (beats ! k) (beats ! (k + 1))"
    by (auto simp: specSlices_def)
  then show "durationOk (beats ! i) (beats ! (i + 1))"
    using specSlice_inject by metis
next
  assume "durationOk (beats ! i) (beats ! (i + 1))"
  moreover have "i < length beats - 1"
    using assms by linarith
  ultimately show "specSlice audioData sampleRate (beats ! i) (beats ! (i + 1))
            \<in> set (specSlices audioData sampleRate beats)"
    by (auto simp: specSlices_def)
qed

lemma specSlices_example:
  "specSlices audioData sampleRate [0, 1 / 2, 3] = [specSlice audioData sampleRate 0 (1 / 2)]"
proof -
  have "[0 ..< length [0 :: real, 1 / 2, 3] - 1] = [0, 1]"
    by (simp add: upt_rec)
  then show ?thesis
    by (simp add: specSlices_def durationOk_def minSliceDuration_def maxSliceDuration_def)
qed

text \<open>
  Claim C7.  For a track whose beat times are not negative, the slices extracted are,
  in beat order, exactly the copies of the sample ranges
  \<open>[floor (beats[i] * sampleRate), floor (beats[i+1] * sampleRate))\<close> of the consecutive
  beat pairs whose distance lies in \<open>[minSliceDuration, maxSliceDuration] = [0.2, 2.0]\<close>:
  the slice of a pair is among them if and only if its distance lies in that interval.
  All tracks contribute in this way, in track order.  For the beats \<open>[0.0, 0.5, 3.0]\<close>
  only the slice of \<open>[0.0, 0.5]\<close> is extracted.
\<close>

theorem slices_between_accepted_beat_pairs:
  assumes "\<forall>b \<in> set downbeats. 0 \<le> b"
    and "\<forall>track \<in> set allDownbeats. \<forall>b \<in> set (snd track). 0 \<le> b"
  shows "sliceLoop audioData sampleRate downbeats [] 0
           = specSlices audioData sampleRate downbeats
   \<and> (i + 1 < length downbeats \<longrightarrow>
        (specSlice audioData sampleRate (downbeats ! i) (downbeats ! (i + 1))
           \<in> set (sliceLoop audioData sampleRate downbeats [] 0)
         \<longleftrightarrow> minSliceDuration \<le> downbeats ! (i + 1) - downbeats ! i
             \<and> downbeats ! (i + 1) - downbeats ! i \<le> maxSliceDuration))
   \<and> createSlices allDownbeats
       = concat (map (\<lambda>(buffer, downbeats).
                   specSlices (buffer_channelData buffer) (buffer_sampleRate buffer) downbeats)
                 allDownbeats)
   \<and> sliceLoop audioData sampleRate [0, 1 / 2, 3] [] 0
       = [specSlice audioData sampleRate 0 (1 / 2)]"
proof -
  have one: "sliceLoop audioData sampleRate downbeats [] 0
               = specSlices audioData sampleRate downbeats"
    using sliceLoop_specSlices [OF assms(1), of audioData sampleRate "[]"] by simp
  have ex: "sliceLoop audioData sampleRate [0, 1 / 2, 3] [] 0
              = [specSlice audioData sampleRate 0 (1 / 2)]"
    using sliceLoop_specSlices [of "[0, 1 / 2, 3]" audioData sampleRate "[]"]
    by (simp add: specSlices_example)
  have all: "createSlices allDownbeats
       = concat (map (\<lambda>(buffer, downbeats).
                   specSlices (buffer_channelData buffer) (buffer_sampleRate buffer) downbeats)
                 allDownbeats)"
    using createSlices_fold [OF assms(2), of "[]"] by (simp add: createSlices_def)
  have iff: "i + 1 < length downbeats \<longrightarrow>
        (specSlice audioData sampleRate (downbeats ! i) (downbeats ! (i + 1))
           \<in> set (specSlices audioData sampleRate downbeats)
         \<longleftrightarrow> minSliceDuration \<le> downbeats ! (i + 1) - downbeats ! i
             \<and> downbeats ! (i + 1) - downbeats ! i \<le> maxSliceDuration)"
    using specSlice_mem_iff [of i downbeats audioData sampleRate]
    by (simp add: durationOk_def)
  show ?thesis
    unfolding one ex all using iff by simp
qed

text \<open>
  A track of three and a half seconds at 44100 Hz with the beats 0 s, 0.5 s and 3 s:
  the one slice holds the first 22050 samples.
\<close>

theorem slices_between_accepted_beat_pairs_witness:
  "sliceLoop (replicate 154350 (1 / 2)) 44100 [0, 1 / 2, 3] [] 0
     = [\<lparr>slice_audioData = replicate 22050 (1 / 2), slice_startTime = 0,
         slice_duration = 1 / 2\<rparr>]
   \<and> createSlices
         [(\<lparr>buffer_sampleRate = 44100, buffer_channelData = replicate 154350 (1 / 2)\<rparr>,
           [0, 1 / 2, 3])]
       = [\<lparr>slice_audioData = replicate 22050 (1 / 2), slice_startTime = 0,
           slice_duration = 1 / 2\<rparr>]
   \<and> specSlice (replicate 154350 (1 / 2)) 44100 0 (1 / 2)
       \<in> set (sliceLoop (replicate 154350 (1 / 2)) 44100 [0, 1 / 2, 3] [] 0)
   \<and> specSlice (replicate 154350 (1 / 2)) 44100 (1 / 2) 3
       \<notin> set (sliceLoop (replicate 154350 (1 / 2)) 44100 [0, 1 / 2, 3] [] 0)"
proof -
  let ?data = "replicate 154350 (1 / 2 :: real)"
  let ?track = "(\<lparr>buffer_sampleRate = 44100, buffer_channelData = ?data\<rparr>,
                 [0 :: real, 1 / 2, 3])"
  have h1: "\<forall>b \<in> set [0 :: real, 1 / 2, 3]. 0 \<le> b"
    by simp
  have h2: "\<forall>track \<in> set [?track]. \<forall>b \<in> set (snd track). 0 \<le> b"
    by simp
  have r: "map (\<lambda>k. ?data ! k) [0 ..< 22050] = replicate 22050 (1 / 2)"
    by (rule nth_equalityI) simp_all
  have s: "specSlice ?data 44100 0 (1 / 2)
             = \<lparr>slice_audioData = replicate 22050 (1 / 2), slice_startTime = 0,
                slice_duration = 1 / 2\<rparr>"
    by (simp add: specSlice_def r)
  have s': "specSlice ?data 44100 (1 / 2) 3 \<noteq> specSlice ?data 44100 0 (1 / 2)"
    using specSlice_inject [of ?data 44100 "1 / 2" 3 0 "1 / 2"] by auto
  note t = slices_between_accepted_beat_pairs [OF h1 h2, of ?data 44100]
  show ?thesis
    using t [of 0] t [of 1]
    using s s' by (simp add: specSlices_example minSliceDuration_def maxSliceDuration_def)
qed

section \<open>Shuffle and selection\<close>

lemma length_shuffleLoop:
  "length (fst (shuffleLoop random calls slices i)) = length slices"
  by (induction i arbitrary: calls slices) (simp_all add: Let_def)

lemma calls_shuffleLoop:
  "snd (shuffleLoop random calls slices i) = calls + i"
  by (induction i arbitrary: calls slices) (simp_all add: Let_def)

lemma swap_index_in_range:
  assumes "0 \<le> r" and "r < 1"
  shows "nat \<lfloor>r * real (i + 1)\<rfloor> \<le> i"
proof -
  have "r * real (i + 1) < real (i + 1)"
    using assms by simp
  then have "\<lfloor>r * real (i + 1)\<rfloor> < int (i + 1)"
    by (simp add: floor_less_iff)
  then show ?thesis
    by linarith
qed

lemma mset_shuffleLoop:
  assumes "\<forall>k. 0 \<le> random k \<and> random k < 1"
    and "i < length slices \<or> i = 0"
  shows "mset (fst (shuffleLoop random calls slices i)) = mset slices"
  using assms(2)
proof (induction i arbitrary: calls slices)
  case 0
  then show ?case by simp
next
  case (Suc i')
  let ?j = "nat \<lfloor>random calls * real (Suc i' + 1)\<rfloor>"
  have i: "Suc i' < length slices"
    using Suc.prems by simp
  have j: "?j < length slices"
    using swap_index_in_range [of "random calls" "Suc i'"] assms(1) i
    by (meson le_less_trans)
  let ?swapped = "slices[Suc i' := slices ! ?j, ?j := slices ! Suc i']"
  have "mset ?swapped = mset slices"
    using i j by (simp add: mset_swap)
  moreover have "i' < length ?swapped \<or> i' = 0"
    using i by simp
  ultimately show ?case
    using Suc.IH [of ?swapped "calls + 1"] by (simp add: Let_def)
qed

lemma js_slice_prefix:
  assumes "0 \<le> n"
  shows "js_slice a 0 n = take (nat n) a"
  using assms by (simp add: js_slice_def Let_def min_def)

lemma drawn_count_range:
  assumes "0 \<le> r" and "r < 1"
  shows "30 \<le> \<lfloor>r * 30\<rfloor> + 30 \<and> \<lfloor>r * 30\<rfloor> + 30 \<le> 59"
proof -
  have "0 \<le> r * 30" "r * 30 < 30"
    using assms by simp_all
  then have "0 \<le> \<lfloor>r * 30\<rfloor>" "\<lfloor>r * 30\<rfloor> < 30"
    by (simp_all add: floor_less_iff)
  then show ?thesis
    by simp
qed

lemma selectSlices_eq:
  assumes "\<forall>k. 0 \<le> random k \<and> random k < 1"
  shows "selectSlices random slices
     = take (nat (\<lfloor>random (length slices - 1) * 30\<rfloor> + 30))
         (fst (shuffle random slices))"
proof -
  obtain shuffled calls where sh: "shuffle random slices = (shuffled, calls)"
    by (cases "shuffle random slices")
  have calls: "calls = length slices - 1"
    using calls_shuffleLoop [of random 0 slices "length slices - 1"] sh
    by (simp add: shuffle_def)
  have len: "length shuffled = length slices"
    using length_shuffleLoop [of random 0 slices "length slices - 1"] sh
    by (simp add: shuffle_def)
  have r: "30 \<le> \<lfloor>random calls * 30\<rfloor> + 30"
    using drawn_count_range assms by blast
  have "selectSlices random slices
          = js_slice shuffled 0 (min (int (length shuffled)) (\<lfloor>random calls * 30\<rfloor> + 30))"
    by (simp add: selectSlices_def sh numSlices_def)
  also have "\<dots> = take (nat (min (int (length shuffled)) (\<lfloor>random calls * 30\<rfloor> + 30))) shuffled"
    using r by (intro js_slice_prefix) simp
  also have "\<dots> = take (nat (\<lfloor>random calls * 30\<rfloor> + 30)) shuffled"
    using r by (simp add: min_def)
  finally show ?thesis
    by (simp add: sh calls)
qed

text \<open>
  Claim C8.  Whatever values in \<open>[0, 1)\<close> the random source returns, the selection has
  at most as many slices as are available and at least \<open>min available 30\<close>: its length
  is the minimum of the number available and the count drawn, and the count drawn,
  \<open>floor (random * 30) + 30\<close>, lies between 30 and 60 (it is at most 59).  The slices
  selected are among the available ones, none taken twice.
\<close>

theorem selection_count_bounds:
  assumes "\<forall>k. 0 \<le> random k \<and> random k < 1"
  shows "length (selectSlices random slices) \<le> length slices
   \<and> min (length slices) 30 \<le> length (selectSlices random slices)
   \<and> length (selectSlices random slices)
       = min (length slices) (nat (\<lfloor>random (length slices - 1) * 30\<rfloor> + 30))
   \<and> 30 \<le> \<lfloor>random (length slices - 1) * 30\<rfloor> + 30
   \<and> \<lfloor>random (length slices - 1) * 30\<rfloor> + 30 \<le> 60
   \<and> mset (selectSlices random slices) \<subseteq># mset slices"
proof -
  let ?n = "\<lfloor>random (length slices - 1) * 30\<rfloor> + 30"
  have r: "30 \<le> ?n \<and> ?n \<le> 59"
    using drawn_count_range assms by blast
  have len: "length (fst (shuffle random slices)) = length slices"
    by (simp add: shuffle_def length_shuffleLoop)
  have ms: "mset (fst (shuffle random slices)) = mset slices"
    unfolding shuffle_def
    by (rule mset_shuffleLoop [OF assms]) (cases slices; simp)
  have sel: "selectSlices random slices = take (nat ?n) (fst (shuffle random slices))"
    using assms by (rule selectSlices_eq)
  have sub: "mset (selectSlices random slices) \<subseteq># mset slices"
  proof -
    have "mset (take (nat ?n) (fst (shuffle random slices)))
            \<subseteq># mset (take (nat ?n) (fst (shuffle random slices))
                       @ drop (nat ?n) (fst (shuffle random slices)))"
      unfolding mset_append by (rule mset_subset_eq_add_left)
    then show ?thesis
      by (simp add: sel ms)
  qed
  have l: "length (selectSlices random slices) = min (length slices) (nat ?n)"
    by (simp add: sel len)
  have n30: "30 \<le> nat ?n"
    using r by linarith
  have b1: "length (selectSlices random slices) \<le> length slices"
    unfolding l by (rule min.cobounded1)
  have b2: "min (length slices) 30 \<le> length (selectSlices random slices)"
    unfolding l using n30 by (rule min.mono [OF order_refl])
  have b3: "30 \<le> ?n" and b4: "?n \<le> 60"
    using r by linarith+
  show ?thesis
    using b1 b2 l b3 b4 sub by blast
qed

theorem selection_count_bounds_witness:
  "length (selectSlices (\<lambda>k. 1 / 2) [1 :: nat, 2, 3]) = 3
   \<and> mset (selectSlices (\<lambda>k. 1 / 2) [1 :: nat, 2, 3]) \<subseteq># mset [1, 2, 3]
   \<and> length (selectSlices (\<lambda>k. 1 / 2) [0 ..< 70]) = 45"
proof -
  have h: "\<forall>k :: nat. (0 :: real) \<le> 1 / 2 \<and> (1 / 2 :: real) < 1"
    by simp
  show ?thesis
    using selection_count_bounds [of "\<lambda>k. 1 / 2" "[1 :: nat, 2, 3]", OF h]
      selection_count_bounds [of "\<lambda>k. 1 / 2" "[0 ..< 70]", OF h]
    by simp
qed

section \<open>The sample rate of the generated song\<close>

text \<open>
  Claim C10.  On an empty list of tracks the pipeline raises (a TypeError, from reading
  \<^verbatim>\<open>audioBuffers[0].sampleRate\<close>).  On a list with a first track it returns a buffer
  unless no sample was selected (then \<^verbatim>\<open>createBuffer\<close> refuses the empty buffer); the
  buffer carries the sample rate of the first track, and its samples are the selected
  slices' own samples, faded and concatenated one for one: the output has as many
  samples as the selected slices together.  Each track is cut at its own sample rate,
  and nothing is resampled when a track's rate differs from the first one's.
\<close>

theorem output_keeps_first_sample_rate:
  "generateBrainrotSong findDownbeats random [] = Inl TypeError
   \<and> (let selectedSlices =
            selectSlices random
              (createSlices (map (\<lambda>buffer. (buffer, findDownbeats buffer)) (first # others)));
          crossfadeSamples = \<lfloor>0.01 * real (buffer_sampleRate first)\<rfloor>;
          outputData =
            concat (map (\<lambda>s. fadedSlice crossfadeSamples (slice_audioData s)) selectedSlices)
      in generateBrainrotSong findDownbeats random (first # others)
           = (if totalSamplesOf selectedSlices = 0 then Inl NotSupportedError
              else Inr \<lparr>buffer_sampleRate = buffer_sampleRate first,
                        buffer_channelData = outputData\<rparr>)
         \<and> length outputData
             = sum_list (map (\<lambda>s. length (slice_audioData s)) selectedSlices))
   \<and> ((\<forall>buffer \<in> set audioBuffers. \<forall>b \<in> set (findDownbeats buffer). 0 \<le> b) \<longrightarrow>
        createSlices (map (\<lambda>buffer. (buffer, findDownbeats buffer)) audioBuffers)
          = concat (map (\<lambda>buffer. specSlices (buffer_channelData buffer)
                                    (buffer_sampleRate buffer) (findDownbeats buffer))
                      audioBuffers))"
proof -
  let ?selected = "selectSlices random
              (createSlices (map (\<lambda>buffer. (buffer, findDownbeats buffer)) (first # others)))"
  let ?cf = "\<lfloor>0.01 * real (buffer_sampleRate first)\<rfloor>"
  have a: "generateBrainrotSong findDownbeats random [] = Inl TypeError"
    by (simp add: generateBrainrotSong_def)
  have len: "length (combineSlices ?cf ?selected) = totalSamplesOf ?selected"
    by (rule length_combineSlices)
  have b: "generateBrainrotSong findDownbeats random (first # others)
           = (if totalSamplesOf ?selected = 0 then Inl NotSupportedError
              else Inr \<lparr>buffer_sampleRate = buffer_sampleRate first,
                        buffer_channelData = combineSlices ?cf ?selected\<rparr>)"
    using len by (simp add: generateBrainrotSong_def Let_def createBuffer_def)
  have c: "length (combineSlices ?cf ?selected)
             = sum_list (map (\<lambda>s. length (slice_audioData s)) ?selected)"
    by (simp add: length_combineSlices totalSamplesOf_sum)
  have d: "(\<forall>buffer \<in> set audioBuffers. \<forall>b \<in> set (findDownbeats buffer). 0 \<le> b) \<longrightarrow>
        createSlices (map (\<lambda>buffer. (buffer, findDownbeats buffer)) audioBuffers)
          = concat (map (\<lambda>buffer. specSlices (buffer_channelData buffer)
                                    (buffer_sampleRate buffer) (findDownbeats buffer))
                      audioBuffers)"
  proof
    assume "\<forall>buffer \<in> set audioBuffers. \<forall>b \<in> set (findDownbeats buffer). 0 \<le> b"
    then have "\<forall>track \<in> set (map (\<lambda>buffer. (buffer, findDownbeats buffer)) audioBuffers).
                 \<forall>b \<in> set (snd track). 0 \<le> b"
      by simp
    from createSlices_fold [OF this, of "[]"]
    show "createSlices (map (\<lambda>buffer. (buffer, findDownbeats buffer)) audioBuffers)
          = concat (map (\<lambda>buffer. specSlices (buffer_channelData buffer)
                                    (buffer_sampleRate buffer) (findDownbeats buffer))
                      audioBuffers)"
      by (simp add: createSlices_def comp_def)
  qed
  show ?thesis
    unfolding Let_def using a b c d by (simp add: combineSlices_eq)
qed

text \<open>
  Two tracks of two seconds, at 44100 Hz and at 48000 Hz, each with the beats 0 s and
  0.5 s, and a random source that always returns 0 (the shuffle then swaps the two
  slices): the half second is 22050 samples of the first track and 24000 of the second;
  the output is marked 44100 Hz and holds all 46050 samples.
\<close>

theorem output_keeps_first_sample_rate_witness:
  "generateBrainrotSong (\<lambda>buffer. [0, 1 / 2]) (\<lambda>k. 0)
     [\<lparr>buffer_sampleRate = 44100, buffer_channelData = replicate 88200 (1 / 2)\<rparr>,
      \<lparr>buffer_sampleRate = 48000, buffer_channelData = replicate 96000 (1 / 4)\<rparr>]
     = Inr \<lparr>buffer_sampleRate = 44100,
            buffer_channelData =
              fadedSlice 441 (replicate 24000 (1 / 4)) @ fadedSlice 441 (replicate 22050 (1 / 2))\<rparr>
   \<and> length (fadedSlice 441 (replicate 24000 (1 / 4)) @ fadedSlice 441 (replicate 22050 (1 / 2)))
       = 46050"
proof -
  let ?t1 = "\<lparr>buffer_sampleRate = 44100, buffer_channelData = replicate 88200 (1 / 2 :: real)\<rparr>"
  let ?t2 = "\<lparr>buffer_sampleRate = 48000, buffer_channelData = replicate 96000 (1 / 4 :: real)\<rparr>"
  let ?fd = "\<lambda>buffer :: AudioBuffer. [0, 1 / 2 :: real]"
  let ?s1 = "\<lparr>slice_audioData = replicate 22050 (1 / 2 :: real), slice_startTime = 0,
              slice_duration = 1 / 2\<rparr>"
  let ?s2 = "\<lparr>slice_audioData = replicate 24000 (1 / 4 :: real), slice_startTime = 0,
              slice_duration = 1 / 2\<rparr>"
  have h: "\<forall>buffer \<in> set [?t1, ?t2]. \<forall>b \<in> set (?fd buffer). 0 \<le> b"
    by simp
  note t = output_keeps_first_sample_rate [of ?fd "\<lambda>k. 0" ?t1 "[?t2]" "[?t1, ?t2]"]
  have r1: "map (\<lambda>k. replicate 88200 (1 / 2 :: real) ! k) [0 ..< 22050] = replicate 22050 (1 / 2)"
    by (rule nth_equalityI) simp_all
  have r2: "map (\<lambda>k. replicate 96000 (1 / 4 :: real) ! k) [0 ..< 24000] = replicate 24000 (1 / 4)"
    by (rule nth_equalityI) simp_all
  have sl: "createSlices (map (\<lambda>buffer. (buffer, ?fd buffer)) [?t1, ?t2]) = [?s1, ?s2]"
    using t h
    by (simp add: specSlices_def specSlice_def durationOk_def minSliceDuration_def
        maxSliceDuration_def r1 r2)
  have sel: "selectSlices (\<lambda>k. 0) [?s1, ?s2] = [?s2, ?s1]"
    by (simp add: selectSlices_def shuffle_def numSlices_def js_slice_def Let_def)
  have len: "length (fadedSlice 441 (replicate 24000 (1 / 4)) @ fadedSlice 441 (replicate 22050 (1 / 2)))
       = 46050"
    by (simp add: fadedSlice_def)
  show ?thesis
    using t len
    apply (simp only: sl sel Let_def)
    apply (simp add: totalSamplesOf_sum)
    done
qed

end
